theory Spec2Isabelle
  imports
    Main
    "HOL-Library.AList"
    "HOL-Library.Char_ord"
    "HOL-Library.List_Lexorder"
    "HOL-Library.Multiset"
    "HOL-Library.Sublist"
begin

section \<open>Python values shared by both modules\<close>

text \<open>
  Every exception that the modelled code can raise is a value of this type. A function
  that can raise returns a sum whose left injection carries the exception.
\<close>

datatype error =
    NotEnoughDiskSpaceError
  | AssertionError
  | ZeroDivisionError
  | IndexError
  | ValueError
  | RuntimeError

text \<open>
  A \<open>collections.Counter\<close> is a dict, kept here as an association list in insertion
  order. Reading a missing key gives 0 and does not insert it; \<open>c[w] -= 1\<close> reads with
  that default and stores the result, so it inserts a missing key with the value -1.
\<close>

type_synonym counter = "(string \<times> int) list"

definition counter_get :: "counter \<Rightarrow> string \<Rightarrow> int" where
  "counter_get c w = (case map_of c w of None \<Rightarrow> 0 | Some n \<Rightarrow> n)"

definition counter_contains :: "counter \<Rightarrow> string \<Rightarrow> bool" where
  "counter_contains c w = (map_of c w \<noteq> None)"

definition counter_dec :: "counter \<Rightarrow> string \<Rightarrow> counter" where
  "counter_dec c w = AList.update w (counter_get c w - 1) c"

definition counter_total :: "counter \<Rightarrow> int" where
  "counter_total c = sum_list (map snd c)"

text \<open>
  Python slicing \<open>xs[a:b]\<close>, \<open>xs[:b]\<close> and \<open>xs[a:]\<close> on a sequence: a negative bound
  counts from the end, and every bound is clipped to the sequence.
\<close>

definition slice_bound :: "nat \<Rightarrow> int \<Rightarrow> nat" where
  "slice_bound n k = (if k < 0 then nat (int n + k) else min (nat k) n)"

definition py_slice :: "int \<Rightarrow> int \<Rightarrow> 'a list \<Rightarrow> 'a list" where
  "py_slice a b xs =
     (let lo = slice_bound (length xs) a; hi = slice_bound (length xs) b
      in take (hi - lo) (drop lo xs))"

definition py_take :: "int \<Rightarrow> 'a list \<Rightarrow> 'a list" where
  "py_take b xs = take (slice_bound (length xs) b) xs"

definition py_drop :: "int \<Rightarrow> 'a list \<Rightarrow> 'a list" where
  "py_drop a xs = drop (slice_bound (length xs) a) xs"

definition startswith :: "string \<Rightarrow> string \<Rightarrow> bool" where
  "startswith s p = (take (length p) s = p)"

definition endswith :: "string \<Rightarrow> string \<Rightarrow> bool" where
  "endswith s q = (length q \<le> length s \<and> drop (length s - length q) s = q)"

text \<open>
  \<open>math.ceil(a / b)\<close> for a positive divisor. The source divides in floating point;
  for the divisors 10 and 2 and every count below \<open>2 ^ 53\<close> the rounded quotient has the
  same ceiling as the exact one, which is what is computed here. From
  \<open>11258999068426241 / 10\<close> on the rounded quotient can be an integer where the exact one
  is not, and the two ceilings differ: what is proved of the quotas is proved for counts
  below \<open>2 ^ 53\<close> only.
\<close>

definition ceil_div :: "int \<Rightarrow> int \<Rightarrow> int" where
  "ceil_div a b = - ((- a) div b)"


section \<open>split_data.py: word quotas\<close>

text \<open>
  A row of one of the two correction tables read by \<open>pd.read_csv\<close>. The cell of the
  column \<open>lexical_word\<close> is \<open>None\<close> when the CSV leaves it empty (pandas stores NaN), and
  \<open>other_cells_nan\<close> says whether some other column of the row is NaN.
\<close>

record correction_row =
  cr_lexical_word :: "string option"
  other_cells_nan :: bool

text \<open>
  One pass of \<open>for word in table["lexical_word"]\<close> in \<open>split_words\<close> (lines 29-34 and
  37-42): a word that is a key loses one count and is deleted when the count is 0. NaN
  is never a key of the word counter.
\<close>

fun remove_one_count :: "string option \<Rightarrow> counter \<Rightarrow> counter" where
  "remove_one_count None words = words"
| "remove_one_count (Some word) words =
     (if counter_contains words word
      then (let words' = counter_dec words word
            in if counter_get words' word = 0 then AList.delete word words' else words')
      else words)"

definition remove_counts :: "correction_row list \<Rightarrow> counter \<Rightarrow> counter" where
  "remove_counts table words = fold remove_one_count (map cr_lexical_word table) words"

definition corrected_words ::
  "counter \<Rightarrow> correction_row list \<Rightarrow> correction_row list \<Rightarrow> counter" where
  "corrected_words words incongruent_words dublicate_vectors =
     remove_counts dublicate_vectors (remove_counts incongruent_words words)"

text \<open>
  The word counter that \<open>split_words\<close> loads holds occurrences that were counted: every
  count in it is at least 1.
\<close>

definition positive_counts :: "counter \<Rightarrow> bool" where
  "positive_counts words = (\<forall>w c. map_of words w = Some c \<longrightarrow> 1 \<le> c)"

text \<open>The body of the quota loop (lines 48-60) for one count.\<close>

definition word_quotas :: "int \<Rightarrow> int \<times> int \<times> int" where
  "word_quotas c =
     (let ten_percent = ceil_div c 10;
          word_amount_for_test = (if ten_percent > 1 then ten_percent else 1);
          word_count = c - word_amount_for_test;
          word_amount_for_validation =
            (if ten_percent < ceil_div word_count 2 then ten_percent
             else ceil_div word_count 2);
          word_count' = word_count - word_amount_for_validation
      in (word_amount_for_test, word_amount_for_validation, word_count'))"

text \<open>
  The loop \<open>for word in words\<close> (lines 46-64) with its assertion, over the entries of
  the corrected counter; the accumulator holds \<open>test_words\<close>, \<open>validation_words\<close> and
  \<open>training_words\<close>.
\<close>

fun distribute ::
  "(string \<times> int) list \<Rightarrow> counter \<times> counter \<times> counter \<Rightarrow>
     error + (counter \<times> counter \<times> counter)" where
  "distribute [] acc = Inr acc"
| "distribute ((word, c) # rest) (test_words, validation_words, training_words) =
     (case word_quotas c of (t, v, tr) \<Rightarrow>
        if tr + v + t = c
        then distribute rest
               (AList.update word t test_words,
                AList.update word v validation_words,
                AList.update word tr training_words)
        else Inl AssertionError)"

text \<open>
  \<open>split_words\<close> up to the point where it hands the three counters to \<open>split_data\<close>:
  the corrections, the quota loop, and the printed ratios, whose division raises when
  no word is left.
\<close>

definition split_words_quotas ::
  "counter \<Rightarrow> correction_row list \<Rightarrow> correction_row list \<Rightarrow>
     error + (counter \<times> counter \<times> counter)" where
  "split_words_quotas raw incongruent_words dublicate_vectors =
     (let words = corrected_words raw incongruent_words dublicate_vectors
      in case distribute words ([], [], []) of
           Inl e \<Rightarrow> Inl e
         | Inr q \<Rightarrow> if counter_total words = 0 then Inl ZeroDivisionError else Inr q)"


section \<open>train_forward.py: batch sampler and padding\<close>

text \<open>
  \<open>AccedingSequenceLengthBatchSampler\<close>. The constructor keeps the length of every
  articulatory sequence of the data source.
\<close>

record sampler =
  sizes :: "nat list"
  batch_size :: int
  drop_last :: bool

definition sampler_init :: "('c list \<times> 'm list) list \<Rightarrow> int \<Rightarrow> bool \<Rightarrow> sampler" where
  "sampler_init data_source bs dl =
     \<lparr>sizes = map (\<lambda>x. length (fst x)) data_source, batch_size = bs, drop_last = dl\<rparr>"

text \<open>
  \<open>torch.argsort\<close>: the indices in ascending order of their size. Torch leaves the order
  of indices with equal sizes open; the stable order is taken here, and the sampler is
  evaluated below on sizes without ties only.
\<close>

definition argsort :: "nat list \<Rightarrow> nat list" where
  "argsort szs = sort_key (\<lambda>j. szs ! j) [0..<length szs]"

text \<open>
  \<open>range(0, n, step)\<close>: raises for a zero step, is empty for a negative one when
  \<open>n \<ge> 0\<close>.
\<close>

definition range_from_zero :: "nat \<Rightarrow> int \<Rightarrow> error + nat list" where
  "range_from_zero n step =
     (if step = 0 then Inl ValueError
      else if step < 0 then Inr []
      else Inr (map (\<lambda>k. k * nat step) [0..<(n + nat step - 1) div nat step]))"

text \<open>
  \<open>__iter__\<close> (lines 69-75): the batches in the order they are yielded, or the exception
  that the first \<open>next\<close> raises. \<open>batches[-1]\<close> is only read when \<open>drop_last\<close> is set.
\<close>

definition sampler_iter :: "sampler \<Rightarrow> error + nat list list" where
  "sampler_iter s =
     (let indices = argsort (sizes s)
      in case range_from_zero (length indices) (batch_size s) of
           Inl e \<Rightarrow> Inl e
         | Inr starts \<Rightarrow>
             (let batches = map (\<lambda>k. py_slice (int k) (int k + batch_size s) indices) starts
              in if drop_last s
                 then (if batches = [] then Inl IndexError
                       else if int (length (last batches)) < batch_size s
                       then Inr (butlast batches) else Inr batches)
                 else Inr batches))"

definition sampler_len :: "sampler \<Rightarrow> error + int" where
  "sampler_len s =
     (if batch_size s = 0 then Inl ZeroDivisionError
      else if drop_last s then Inr (int (length (sizes s)) div batch_size s)
      else Inr ((int (length (sizes s)) + batch_size s - 1) div batch_size s))"

text \<open>
  \<open>pad_tensor\<close> (lines 83-103). A tensor is the list of its timesteps along dimension
  0. \<open>tensor[-1]\<close> raises on a tensor without timesteps, and \<open>repeat\<close> raises on a
  negative count.
\<close>

definition pad_tensor :: "'a list \<Rightarrow> int \<Rightarrow> bool \<Rightarrow> error + ('a list \<times> bool list)" where
  "pad_tensor tensor target_length allow_longer =
     (let current_length = int (length tensor)
      in if current_length > target_length \<and> \<not> allow_longer then Inl ValueError
         else if current_length = target_length
         then Inr (tensor, replicate (nat target_length) True)
         else if tensor = [] then Inl IndexError
         else if target_length - current_length < 0 then Inl RuntimeError
         else Inr (tensor @ replicate (nat (target_length - current_length)) (last tensor),
                   replicate (length tensor) True
                     @ replicate (nat (target_length - current_length)) False))"

text \<open>
  The loop of \<open>collate_batch_with_padding\<close> (lines 117-126). The accumulator holds the
  local lists \<open>padded_cps\<close>, \<open>padded_melspecs\<close> and \<open>mask\<close> (here \<open>masks\<close>).
\<close>

fun collate_loop ::
  "int \<Rightarrow> int \<Rightarrow> ('c list \<times> 'm list) list \<Rightarrow>
     'c list list \<times> 'm list list \<times> bool list list \<Rightarrow>
     error + ('c list list \<times> 'm list list \<times> bool list list)" where
  "collate_loop max_length_cps max_length_melspecs [] acc = Inr acc"
| "collate_loop max_length_cps max_length_melspecs (sample # rest)
       (padded_cps, padded_melspecs, masks) =
     (case pad_tensor (snd sample) max_length_melspecs False of
        Inl e \<Rightarrow> Inl e
      | Inr (padded_melspec, sample_mask) \<Rightarrow>
          (case pad_tensor (fst sample) max_length_cps False of
             Inl e \<Rightarrow> Inl e
           | Inr (padded_cp, _) \<Rightarrow>
               if length padded_cp = length padded_melspec * 2
               then collate_loop max_length_cps max_length_melspecs rest
                      (padded_cps @ [padded_cp], padded_melspecs @ [padded_melspec],
                       masks @ [sample_mask])
               else Inl AssertionError))"

text \<open>
  The three local lists at the end of the loop; \<open>max\<close> of an empty batch raises.
\<close>

definition collate_locals ::
  "('c list \<times> 'm list) list \<Rightarrow> error + ('c list list \<times> 'm list list \<times> bool list list)" where
  "collate_locals batch =
     (if batch = [] then Inl ValueError
      else (let max_length_cps = int (Max (set (map (\<lambda>sample. length (fst sample)) batch)));
                max_length_melspecs = max_length_cps div 2
            in collate_loop max_length_cps max_length_melspecs batch ([], [], [])))"

text \<open>What the function returns: the two stacked tensors, without the masks.\<close>

definition collate_batch_with_padding ::
  "('c list \<times> 'm list) list \<Rightarrow> error + ('c list list \<times> 'm list list)" where
  "collate_batch_with_padding batch =
     (case collate_locals batch of
        Inl e \<Rightarrow> Inl e
      | Inr (padded_cps, padded_melspecs, masks) \<Rightarrow> Inr (padded_cps, padded_melspecs))"


section \<open>split_data.py: streaming the corpus into three subsets\<close>

text \<open>
  A row of a source shard. \<open>features\<close> stands for the four columns \<open>cp_norm\<close>,
  \<open>melspec_norm_recorded\<close>, \<open>melspec_norm_synthesized\<close> and \<open>vector\<close>, which the code
  only copies. A row of an output shard has the columns selected in lines 224-233:
  the word, the copied columns and \<open>origin\<close>.
\<close>

record 'a corpus_row =
  lexical_word :: string
  mfa_word :: string
  features :: 'a

record 'a out_row =
  out_word :: string
  out_features :: 'a
  origin :: "string \<times> int"

text \<open>
  What \<open>pd.read_pickle\<close> returns for a file: a data frame, the list of its rows with
  their index labels in row order, or some other object. \<open>free_bytes\<close> is the free space
  that \<open>shutil.disk_usage\<close> reports when the loop reaches the file.
\<close>

datatype 'a pickle = DataFrame "(int \<times> 'a corpus_row) list" | OtherObject

record 'a source_file =
  file_name :: string
  free_bytes :: int
  contents :: "'a pickle"

text \<open>The log lines of the three places where the code gives up a file or a row.\<close>

datatype log_record =
    LogSkippingFile string
  | LogWordMismatch string string
  | LogDuplicateVector string

datatype checkpoint_place = IntermediateDir | WorkingDir

type_synonym 'a shard_write = "string \<times> int \<times> 'a out_row list"

type_synonym checkpoint = "checkpoint_place \<times> int \<times> counter \<times> counter \<times> counter"

text \<open>
  The variables of \<open>split_data\<close>, and its effects on the file system as two traces:
  \<open>written\<close> lists the \<open>to_pickle\<close> calls (base name, index, rows) and \<open>checkpoints\<close> the
  dumps of the three counters (place, the value of \<open>i\<close> in the file name, counters).
  \<open>var_i\<close> is the variable \<open>i\<close>: it starts as the count of processed files and is also
  the loop variable of \<open>for i, row in data.iterrows()\<close>.
\<close>

record 'a state =
  test_words :: counter
  validation_words :: counter
  training_words :: counter
  skip_index :: int
  var_i :: int
  test_rows :: "'a out_row list"
  validation_rows :: "'a out_row list"
  training_rows :: "'a out_row list"
  test_df :: "'a out_row list"
  validation_df :: "'a out_row list"
  training_df :: "'a out_row list"
  test_index :: int
  validation_index :: int
  training_index :: int
  written :: "'a shard_write list"
  checkpoints :: "checkpoint list"
  log :: "log_record list"

type_synonym 'a outcome = "((error \<times> 'a state) + 'a state) option"

definition initial_state :: "int \<Rightarrow> counter \<Rightarrow> counter \<Rightarrow> counter \<Rightarrow> 'a state" where
  "initial_state skip tw vw trw =
     \<lparr>test_words = tw, validation_words = vw, training_words = trw,
      skip_index = skip, var_i = 0,
      test_rows = [], validation_rows = [], training_rows = [],
      test_df = [], validation_df = [], training_df = [],
      test_index = 0, validation_index = 0, training_index = 0,
      written = [], checkpoints = [], log = []\<rparr>"

text \<open>\<open>file.split("df")\<close> and the element 1 of the result (line 179).\<close>

fun split_df :: "string \<Rightarrow> string list" where
  "split_df [] = [[]]"
| "split_df [c] = [[c]]"
| "split_df (c # d # cs) =
     (if c = CHR ''d'' \<and> d = CHR ''f'' then [] # split_df cs
      else (case split_df (d # cs) of
              [] \<Rightarrow> [[c]]
            | p # ps \<Rightarrow> (c # p) # ps))"

definition unique_identifier :: "string \<Rightarrow> error + string" where
  "unique_identifier file =
     (case split_df file of a # b # rest \<Rightarrow> Inr b | _ \<Rightarrow> Inl IndexError)"

text \<open>
  \<open>dublicate_vectors.dropna(inplace=True)\<close> (line 175): the rows without NaN, under the
  labels that \<open>read_csv\<close> gave them (their positions in the CSV).
\<close>

definition dropna :: "correction_row list \<Rightarrow> (int \<times> string) list" where
  "dropna table =
     List.map_filter
       (\<lambda>(j, r). case cr_lexical_word r of
                    None \<Rightarrow> None
                  | Some w \<Rightarrow> if other_cells_nan r then None else Some (int j, w))
       (enumerate 0 table)"

text \<open>Lines 207-216: the row gets its origin and goes to the first subset with quota.\<close>

definition route_row :: "string \<Rightarrow> int \<Rightarrow> 'a corpus_row \<Rightarrow> 'a state \<Rightarrow> 'a state" where
  "route_row unique_id i row st =
     (let word = lexical_word row;
          r = \<lparr>out_word = word, out_features = features row, origin = (unique_id, i)\<rparr>
      in if counter_get (test_words st) word > 0
         then st\<lparr>test_words := counter_dec (test_words st) word,
                 test_rows := test_rows st @ [r]\<rparr>
         else if counter_get (validation_words st) word > 0
         then st\<lparr>validation_words := counter_dec (validation_words st) word,
                 validation_rows := validation_rows st @ [r]\<rparr>
         else st\<lparr>training_words := counter_dec (training_words st) word,
                 training_rows := training_rows st @ [r]\<rparr>)"

text \<open>
  One turn of the row loop (lines 182-216). \<open>clean w\<close> stands for
  \<open>replace_special_chars(w).lower()\<close>; \<open>replace_special_chars\<close> lives in
  \<open>split_utils\<close> and is a parameter here. \<open>dups\<close> is the table after \<open>dropna\<close>: the row is
  skipped when the table has the cleaned word under the row's own label.
\<close>

definition process_row ::
  "(string \<Rightarrow> string) \<Rightarrow> (int \<times> string) list \<Rightarrow> string \<Rightarrow> int \<times> 'a corpus_row \<Rightarrow>
     'a state \<Rightarrow> 'a state" where
  "process_row clean dups unique_id labelled st =
     (let i = fst labelled; row = snd labelled;
          st1 = st\<lparr>var_i := i\<rparr>;
          word = lexical_word row;
          cleaned_word = clean word;
          cleaned_mfa_word = clean (mfa_word row)
      in if cleaned_word \<noteq> cleaned_mfa_word
         then st1\<lparr>log := log st1 @ [LogWordMismatch word (mfa_word row)]\<rparr>
         else if (i, cleaned_word) \<in> set dups
         then st1\<lparr>log := log st1 @ [LogDuplicateVector word]\<rparr>
         else route_row unique_id i row st1)"

definition process_rows ::
  "(string \<Rightarrow> string) \<Rightarrow> (int \<times> string) list \<Rightarrow> string \<Rightarrow> (int \<times> 'a corpus_row) list \<Rightarrow>
     'a state \<Rightarrow> 'a state" where
  "process_rows clean dups unique_id data st =
     fold (process_row clean dups unique_id) data st"

text \<open>
  One of the three \<open>while\<close> loops of lines 250-303, which differ in the names only:
  \<open>df\<close> is the buffer, \<open>index\<close> the number of the next output shard of the subset.
  The loop need not end, so the result is optional; an assertion that fails leaves the
  loop with the variables as they are then.
\<close>

partial_function (option) write_full_shards ::
  "string \<Rightarrow> int \<Rightarrow> 'a out_row list \<Rightarrow> int \<Rightarrow> 'a shard_write list \<Rightarrow>
     ((error \<times> 'a out_row list \<times> int \<times> 'a shard_write list)
       + ('a out_row list \<times> int \<times> 'a shard_write list)) option" where
  "write_full_shards base data_size df index files =
     (if int (length df) \<ge> data_size
      then (let df_i = py_take data_size df;
                df' = py_drop data_size df;
                files' = (if length df_i \<noteq> 0 then files @ [(base, index, df_i)] else files);
                index' = index + 1
            in if int (length df) = int (length df') + data_size
               then write_full_shards base data_size df' index' files'
               else Some (Inl (AssertionError, df', index', files')))
      else Some (Inr (df, index, files)))"

declare write_full_shards.simps [code]

text \<open>The three loops in the order of the source.\<close>

definition write_all_full_shards :: "int \<Rightarrow> 'a state \<Rightarrow> 'a outcome" where
  "write_all_full_shards data_size st =
     (case write_full_shards ''test_data'' data_size (test_df st) (test_index st) (written st) of
        None \<Rightarrow> None
      | Some (Inl (e, df, k, fs)) \<Rightarrow>
          Some (Inl (e, st\<lparr>test_df := df, test_index := k, written := fs\<rparr>))
      | Some (Inr (df, k, fs)) \<Rightarrow>
          (let st1 = st\<lparr>test_df := df, test_index := k, written := fs\<rparr>
           in case write_full_shards ''validation_data'' data_size
                     (validation_df st1) (validation_index st1) (written st1) of
                None \<Rightarrow> None
              | Some (Inl (e, df, k, fs)) \<Rightarrow>
                  Some (Inl (e, st1\<lparr>validation_df := df, validation_index := k, written := fs\<rparr>))
              | Some (Inr (df, k, fs)) \<Rightarrow>
                  (let st2 = st1\<lparr>validation_df := df, validation_index := k, written := fs\<rparr>
                   in case write_full_shards ''training_data'' data_size
                             (training_df st2) (training_index st2) (written st2) of
                        None \<Rightarrow> None
                      | Some (Inl (e, df, k, fs)) \<Rightarrow>
                          Some (Inl (e, st2\<lparr>training_df := df, training_index := k,
                                            written := fs\<rparr>))
                      | Some (Inr (df, k, fs)) \<Rightarrow>
                          Some (Inr (st2\<lparr>training_df := df, training_index := k,
                                          written := fs\<rparr>)))))"

text \<open>
  Lines 305-319: the row lists are deleted, the counters are dumped when \<open>i % 10 == 0\<close>,
  and \<open>i\<close> is incremented.
\<close>

definition save_counters :: "'a state \<Rightarrow> 'a state" where
  "save_counters st =
     (let st1 = st\<lparr>test_rows := [], validation_rows := [], training_rows := []\<rparr>;
          st2 = (if var_i st1 mod 10 = 0
                 then st1\<lparr>checkpoints := checkpoints st1 @
                        [(WorkingDir, var_i st1, test_words st1, validation_words st1,
                          training_words st1)]\<rparr>
                 else st1)
      in st2\<lparr>var_i := var_i st2 + 1\<rparr>)"

text \<open>One turn of the loop over the files (lines 130-323).\<close>

definition process_file ::
  "(string \<Rightarrow> string) \<Rightarrow> correction_row list \<Rightarrow> int \<Rightarrow> 'a source_file \<Rightarrow> 'a state \<Rightarrow>
     'a outcome" where
  "process_file clean dublicate_vectors data_size file st =
     (let st0 = st\<lparr>test_rows := [], validation_rows := [], training_rows := []\<rparr>
      in if skip_index st0 > 0
         then Some (Inr (st0\<lparr>skip_index := skip_index st0 - 1,
                             log := log st0 @ [LogSkippingFile (file_name file)]\<rparr>))
         else if endswith (file_name file) ''.pkl''
         then (if free_bytes file div 2 ^ 30 < 25
               then Some (Inl (NotEnoughDiskSpaceError,
                      st0\<lparr>checkpoints := checkpoints st0 @
                        [(IntermediateDir, var_i st0, test_words st0, validation_words st0,
                          training_words st0)]\<rparr>))
               else (case contents file of
                       OtherObject \<Rightarrow> Some (Inr st0)
                     | DataFrame data \<Rightarrow>
                         (case unique_identifier (file_name file) of
                            Inl e \<Rightarrow> Some (Inl (e, st0))
                          | Inr unique_id \<Rightarrow>
                              (let st1 = process_rows clean (dropna dublicate_vectors)
                                           unique_id data st0;
                                   st2 = st1\<lparr>test_df := test_df st1 @ test_rows st1,
                                             validation_df :=
                                               validation_df st1 @ validation_rows st1,
                                             training_df := training_df st1 @ training_rows st1\<rparr>
                               in case write_all_full_shards data_size st2 of
                                    None \<Rightarrow> None
                                  | Some (Inl e) \<Rightarrow> Some (Inl e)
                                  | Some (Inr st3) \<Rightarrow> Some (Inr (save_counters st3))))))
         else Some (Inr st0))"

fun process_files ::
  "(string \<Rightarrow> string) \<Rightarrow> correction_row list \<Rightarrow> int \<Rightarrow> 'a source_file list \<Rightarrow> 'a state \<Rightarrow>
     'a outcome" where
  "process_files clean dublicate_vectors data_size [] st = Some (Inr st)"
| "process_files clean dublicate_vectors data_size (file # files) st =
     (case process_file clean dublicate_vectors data_size file st of
        None \<Rightarrow> None
      | Some (Inl e) \<Rightarrow> Some (Inl e)
      | Some (Inr st') \<Rightarrow> process_files clean dublicate_vectors data_size files st')"

text \<open>
  \<open>split_and_save_dataframe\<close> (lines 327-337): the files it writes, after those in
  \<open>files\<close>.
\<close>

definition split_and_save_dataframe ::
  "'a out_row list \<Rightarrow> int \<Rightarrow> string \<Rightarrow> int \<Rightarrow> 'a shard_write list \<Rightarrow>
     error + 'a shard_write list" where
  "split_and_save_dataframe df data_size base_filename index files =
     (if data_size = 0 then Inl ZeroDivisionError
      else (let num_splits = (int (length df) + data_size - 1) div data_size
            in Inr (files @
                 map (\<lambda>j. (base_filename, index + int j,
                            py_slice (int j * data_size) ((int j + 1) * data_size) df))
                     [0..<nat num_splits])))"

text \<open>
  The directory listing, sorted and then filtered (lines 114-120), and the whole of
  \<open>split_data\<close>. \<open>directory\<close> is what \<open>os.listdir\<close> returns, each name with the file behind
  it.
\<close>

definition sorted_files :: "'a source_file list \<Rightarrow> 'a source_file list" where
  "sorted_files directory =
     filter (\<lambda>file. startswith (file_name file) ''corpus_as_df_mp_epoch_''
                     \<and> endswith (file_name file) ''.pkl'')
       (sort_key file_name directory)"

definition split_data ::
  "(string \<Rightarrow> string) \<Rightarrow> 'a source_file list \<Rightarrow> int \<Rightarrow> counter \<Rightarrow> counter \<Rightarrow> counter \<Rightarrow>
     correction_row list \<Rightarrow> int \<Rightarrow> 'a outcome" where
  "split_data clean directory skip tw vw trw dublicate_vectors data_size =
     (case process_files clean dublicate_vectors data_size (sorted_files directory)
             (initial_state skip tw vw trw) of
        None \<Rightarrow> None
      | Some (Inl e) \<Rightarrow> Some (Inl e)
      | Some (Inr st) \<Rightarrow>
          (case split_and_save_dataframe (test_df st) data_size ''test_data''
                  (test_index st) (written st) of
             Inl e \<Rightarrow> Some (Inl (e, st))
           | Inr fs1 \<Rightarrow>
               (case split_and_save_dataframe (validation_df st) data_size ''validation_data''
                       (validation_index st) fs1 of
                  Inl e \<Rightarrow> Some (Inl (e, st\<lparr>written := fs1\<rparr>))
                | Inr fs2 \<Rightarrow>
                    (case split_and_save_dataframe (training_df st) data_size ''training_data''
                            (training_index st) fs2 of
                       Inl e \<Rightarrow> Some (Inl (e, st\<lparr>written := fs2\<rparr>))
                     | Inr fs3 \<Rightarrow> Some (Inr (st\<lparr>written := fs3\<rparr>))))))"


section \<open>Observations on a run of split_data\<close>

text \<open>
  The rows of all output shards that were written, the shard numbers that one subset
  used, in the order of writing, and the number of rows that the log reports as
  given up (a word mismatch or a duplicate vector).
\<close>

definition written_rows :: "'a shard_write list \<Rightarrow> 'a out_row list" where
  "written_rows fs = concat (map (\<lambda>f. snd (snd f)) fs)"

definition shard_indices :: "string \<Rightarrow> 'a shard_write list \<Rightarrow> int list" where
  "shard_indices base fs = map (\<lambda>f. fst (snd f)) (filter (\<lambda>f. fst f = base) fs)"

fun is_discard :: "log_record \<Rightarrow> bool" where
  "is_discard (LogSkippingFile f) = False"
| "is_discard (LogWordMismatch w m) = True"
| "is_discard (LogDuplicateVector w) = True"

definition discarded :: "log_record list \<Rightarrow> nat" where
  "discarded lg = length (filter is_discard lg)"

text \<open>
  The source shards that a run reads: the listed files after the first \<open>skip\<close> ones.
  The rows of a shard, and the identifier that the rows of a shard get.
\<close>

definition processed_files :: "'a source_file list \<Rightarrow> int \<Rightarrow> 'a source_file list" where
  "processed_files directory skip = drop (nat skip) (sorted_files directory)"

definition file_rows :: "'a source_file \<Rightarrow> (int \<times> 'a corpus_row) list" where
  "file_rows file = (case contents file of DataFrame data \<Rightarrow> data | OtherObject \<Rightarrow> [])"

definition uid_of :: "'a source_file \<Rightarrow> string" where
  "uid_of file = (case unique_identifier (file_name file) of Inr u \<Rightarrow> u | Inl e \<Rightarrow> [])"

definition enough_disk :: "'a source_file \<Rightarrow> bool" where
  "enough_disk file = (25 \<le> free_bytes file div 2 ^ 30)"

text \<open>
  The rows of a data frame that pass the two filters of the row loop, as the output
  rows they become.
\<close>

definition survives :: "(string \<Rightarrow> string) \<Rightarrow> (int \<times> string) list \<Rightarrow> int \<times> 'a corpus_row \<Rightarrow> bool" where
  "survives clean dups labelled =
     (clean (lexical_word (snd labelled)) = clean (mfa_word (snd labelled))
      \<and> (fst labelled, clean (lexical_word (snd labelled))) \<notin> set dups)"

definition as_out_row :: "string \<Rightarrow> int \<times> 'a corpus_row \<Rightarrow> 'a out_row" where
  "as_out_row unique_id labelled =
     \<lparr>out_word = lexical_word (snd labelled), out_features = features (snd labelled),
      origin = (unique_id, fst labelled)\<rparr>"

definition survivors ::
  "(string \<Rightarrow> string) \<Rightarrow> correction_row list \<Rightarrow> 'a source_file \<Rightarrow> 'a out_row list" where
  "survivors clean dublicate_vectors file =
     map (as_out_row (uid_of file))
       (filter (survives clean (dropna dublicate_vectors)) (file_rows file))"


text \<open>
  The output shards that one of the \<open>while\<close> loops writes for a buffer \<open>df\<close>, and the
  rows that a state holds: those written and those still in the three buffers.
\<close>

definition full_shards :: "string \<Rightarrow> int \<Rightarrow> 'a out_row list \<Rightarrow> int \<Rightarrow> 'a shard_write list" where
  "full_shards base data_size df k =
     map (\<lambda>j. (base, k + int j, take (nat data_size) (drop (j * nat data_size) df)))
       [0..<length df div nat data_size]"

definition all_rows :: "'a state \<Rightarrow> 'a out_row multiset" where
  "all_rows st =
     mset (written_rows (written st)) + mset (test_df st) + mset (validation_df st)
       + mset (training_df st)"

text \<open>
  What holds of the state between two source shards: no buffer has reached the shard
  size, every written shard has between 1 and \<open>data_size\<close> rows, and each subset has
  used the shard numbers from 0 up to its counter.
\<close>

definition buffers_flushed :: "int \<Rightarrow> 'a state \<Rightarrow> bool" where
  "buffers_flushed data_size st =
     (int (length (test_df st)) < data_size \<and> int (length (validation_df st)) < data_size
      \<and> int (length (training_df st)) < data_size)"

definition shards_ok :: "int \<Rightarrow> 'a shard_write list \<Rightarrow> bool" where
  "shards_ok data_size fs =
     list_all (\<lambda>f. 0 < length (snd (snd f)) \<and> int (length (snd (snd f))) \<le> data_size) fs"

definition indices_ok :: "'a state \<Rightarrow> bool" where
  "indices_ok st =
     (0 \<le> test_index st \<and> 0 \<le> validation_index st \<and> 0 \<le> training_index st
      \<and> shard_indices ''test_data'' (written st) = map int [0..<nat (test_index st)]
      \<and> shard_indices ''validation_data'' (written st) = map int [0..<nat (validation_index st)]
      \<and> shard_indices ''training_data'' (written st) = map int [0..<nat (training_index st)])"


section \<open>Example inputs\<close>

text \<open>A word counter and two correction tables.\<close>

definition ex_raw :: counter where
  "ex_raw = [(''the'', 101), (''a'', 2), (''b'', 1)]"

definition ex_incongruent :: "correction_row list" where
  "ex_incongruent =
     [\<lparr>cr_lexical_word = Some ''the'', other_cells_nan = False\<rparr>,
      \<lparr>cr_lexical_word = Some ''b'', other_cells_nan = False\<rparr>,
      \<lparr>cr_lexical_word = Some ''b'', other_cells_nan = False\<rparr>,
      \<lparr>cr_lexical_word = Some ''zebra'', other_cells_nan = False\<rparr>]"

definition ex_dublicate :: "correction_row list" where
  "ex_dublicate =
     [\<lparr>cr_lexical_word = Some ''a'', other_cells_nan = False\<rparr>,
      \<lparr>cr_lexical_word = None, other_cells_nan = True\<rparr>]"


definition ex_batch :: "(string \<times> string) list" where
  "ex_batch = [(''abcdef'', ''ABC''), (''ghij'', ''GH''), (''klmnopqrst'', ''KLMNO'')]"


definition ex_row :: "string \<Rightarrow> unit corpus_row" where
  "ex_row w = \<lparr>lexical_word = w, mfa_word = w, features = ()\<rparr>"

definition ex_shard :: "string \<Rightarrow> (int \<times> unit corpus_row) list \<Rightarrow> unit source_file" where
  "ex_shard n data =
     \<lparr>file_name = ''corpus_as_df_mp_epoch_'' @ n @ ''.pkl'', free_bytes = 100 * 2 ^ 30,
      contents = DataFrame data\<rparr>"

definition ex_directory :: "unit source_file list" where
  "ex_directory =
     [ex_shard ''1'' [(0, ex_row ''a''), (1, ex_row ''a''), (2, ex_row ''a'')],
      \<lparr>file_name = ''notes.txt'', free_bytes = 100 * 2 ^ 30, contents = OtherObject\<rparr>,
      ex_shard ''0'' [(0, ex_row ''a''),
                      (1, \<lparr>lexical_word = ''x'', mfa_word = ''y'', features = ()\<rparr>),
                      (2, ex_row ''a'')]]"

definition ex_dublicate_vectors :: "correction_row list" where
  "ex_dublicate_vectors = [\<lparr>cr_lexical_word = Some ''a'', other_cells_nan = False\<rparr>]"

definition ex_eleven_shards :: "unit source_file list" where
  "ex_eleven_shards =
     map (\<lambda>n. ex_shard n [(0, ex_row ''a''), (1, ex_row ''a'')])
       [''00'', ''01'', ''02'', ''03'', ''04'', ''05'', ''06'', ''07'', ''08'', ''09'', ''10'']"

definition ex_single_row_shards :: "unit source_file list" where
  "ex_single_row_shards = [ex_shard ''0'' [(0, ex_row ''a'')], ex_shard ''1'' [(0, ex_row ''a'')]]"

definition ex_unplanned_word :: "unit source_file list" where
  "ex_unplanned_word = [ex_shard ''0'' [(0, ex_row ''a'')]]"



definition ex_repeated_label :: "unit source_file list" where
  "ex_repeated_label = [ex_shard ''0'' [(0, ex_row ''a''), (0, ex_row ''a'')]]"

definition ex_shared_identifier :: "unit source_file list" where
  "ex_shared_identifier =
     [ex_shard ''df1'' [(0, ex_row ''a'')], ex_shard ''df2'' [(0, ex_row ''a'')]]"


section \<open>Properties of the word quotas\<close>

lemma word_quotas_bounds:
  assumes "1 \<le> c"
  shows "case word_quotas c of (t, v, tr) \<Rightarrow> 1 \<le> t \<and> 0 \<le> v \<and> 0 \<le> tr \<and> t + v + tr = c"
  using assms unfolding word_quotas_def ceil_div_def Let_def
  by (simp split: if_splits) linarith

lemma word_quotas_assertion: "word_quotas c = (t, v, tr) \<Longrightarrow> tr + v + t = c"
  unfolding word_quotas_def Let_def by auto

lemma distribute_total:
  "distribute words (tw, vw, trw) =
     Inr (fold (\<lambda>p. AList.update (fst p) (fst (word_quotas (snd p)))) words tw,
          fold (\<lambda>p. AList.update (fst p) (fst (snd (word_quotas (snd p))))) words vw,
          fold (\<lambda>p. AList.update (fst p) (snd (snd (word_quotas (snd p))))) words trw)"
proof (induction words arbitrary: tw vw trw)
  case Nil
  show ?case by simp
next
  case (Cons p words)
  obtain word c where p: "p = (word, c)" by (cases p)
  obtain t v tr where q: "word_quotas c = (t, v, tr)" by (cases "word_quotas c") auto
  have a: "tr + v + t = c" using q by (rule word_quotas_assertion)
  show ?case unfolding p by (simp add: q a Cons.IH)
qed

lemma fold_update_get:
  assumes "distinct (map fst words)" "(w, c) \<in> set words"
  shows "map_of (fold (\<lambda>p. AList.update (fst p) (f (snd p))) words acc) w = Some (f c)"
  using assms
proof (induction words rule: rev_induct)
  case Nil
  then show ?case by simp
next
  case (snoc p words)
  show ?case
  proof (cases "p = (w, c)")
    case True
    then show ?thesis by (simp add: AList.update_conv')
  next
    case False
    then have mem: "(w, c) \<in> set words" using snoc.prems by auto
    have "fst p \<notin> fst ` set words" using snoc.prems by auto
    moreover have "w \<in> fst ` set words" using mem by force
    ultimately have "fst p \<noteq> w" by auto
    moreover have "distinct (map fst words)" using snoc.prems by simp
    ultimately show ?thesis using snoc.IH mem by (simp add: AList.update_conv')
  qed
qed

lemma remove_one_count_map_of:
  "map_of (remove_one_count (Some x) words) =
     (case map_of words x of None \<Rightarrow> map_of words
      | Some c \<Rightarrow> if c = 1 then (map_of words)(x := None) else (map_of words)(x \<mapsto> c - 1))"
  by (simp add: counter_contains_def counter_dec_def counter_get_def Let_def
      AList.update_conv' AList.delete_conv' split: option.splits)

lemma remove_one_count_positive:
  assumes "positive_counts words"
  shows "positive_counts (remove_one_count x words)"
proof (cases x)
  case None
  then show ?thesis using assms by simp
next
  case (Some y)
  show ?thesis
    unfolding positive_counts_def Some remove_one_count_map_of
  proof (intro allI impI)
    fix w c
    assume h: "(case map_of words y of None \<Rightarrow> map_of words
      | Some c \<Rightarrow> if c = 1 then (map_of words)(y := None) else (map_of words)(y \<mapsto> c - 1)) w = Some c"
    show "1 \<le> c"
    proof (cases "map_of words y")
      case None
      then show ?thesis using h assms by (simp add: positive_counts_def)
    next
      case (Some d)
      have d: "1 \<le> d" using Some assms by (simp add: positive_counts_def)
      show ?thesis
      proof (cases "w = y")
        case True
        then show ?thesis using h Some d by (simp split: if_splits)
      next
        case False
        then have "map_of words w = Some c" using h Some by (simp split: if_splits)
        then show ?thesis using assms by (simp add: positive_counts_def)
      qed
    qed
  qed
qed

lemma remove_one_count_distinct:
  "distinct (map fst words) \<Longrightarrow> distinct (map fst (remove_one_count x words))"
  by (cases x) (simp_all add: counter_dec_def Let_def AList.distinct_update AList.distinct_delete)

lemma counter_get_nonneg: "positive_counts words \<Longrightarrow> 0 \<le> counter_get words w"
  by (cases "map_of words w") (simp_all add: counter_get_def positive_counts_def, force)

lemma remove_one_count_get:
  assumes "positive_counts words"
  shows "counter_get (remove_one_count (Some y) words) w =
        (if y = w \<and> 0 < counter_get words w then counter_get words w - 1 else counter_get words w)"
proof (cases "map_of words y")
  case None
  then show ?thesis
    by (cases "y = w") (simp_all add: counter_get_def remove_one_count_map_of del: remove_one_count.simps)
next
  case (Some d)
  have d: "1 \<le> d" using Some assms by (simp add: positive_counts_def)
  show ?thesis using Some d
    by (simp add: counter_get_def remove_one_count_map_of del: remove_one_count.simps)
qed

lemma fold_remove_map_of:
  assumes "positive_counts words"
  shows "map_of (fold remove_one_count xs words) w =
     (if int (count_list xs (Some w)) < counter_get words w
      then Some (counter_get words w - int (count_list xs (Some w))) else None)"
  using assms
proof (induction xs arbitrary: words)
  case Nil
  have "0 \<le> counter_get words w" using Nil by (rule counter_get_nonneg)
  then show ?case using Nil
    by (cases "map_of words w") (simp_all add: counter_get_def positive_counts_def, force)
next
  case (Cons x xs)
  have pos: "positive_counts (remove_one_count x words)"
    using Cons.prems by (rule remove_one_count_positive)
  have nonneg: "0 \<le> counter_get words w" using Cons.prems by (rule counter_get_nonneg)
  show ?case
  proof (cases x)
    case None
    then show ?thesis using Cons.IH[OF Cons.prems] by simp
  next
    case (Some y)
    have get: "counter_get (remove_one_count x words) w =
        (if y = w \<and> 0 < counter_get words w then counter_get words w - 1 else counter_get words w)"
      unfolding Some using Cons.prems by (rule remove_one_count_get)
    have "map_of (fold remove_one_count (x # xs) words) w = map_of (fold remove_one_count xs (remove_one_count x words)) w"
      by simp
    also have "\<dots> = (if int (count_list xs (Some w)) < counter_get (remove_one_count x words) w
      then Some (counter_get (remove_one_count x words) w - int (count_list xs (Some w))) else None)"
      by (rule Cons.IH[OF pos])
    also have "\<dots> = (if int (count_list (x # xs) (Some w)) < counter_get words w
      then Some (counter_get words w - int (count_list (x # xs) (Some w))) else None)"
      unfolding get using nonneg Some by auto
    finally show ?thesis .
  qed
qed

lemma corrected_words_distinct:
  assumes "distinct (map fst raw)"
  shows "distinct (map fst (corrected_words raw inc dup))"
proof -
  have "distinct (map fst (fold remove_one_count xs words))" if "distinct (map fst words)" for xs words
    using that by (induction xs arbitrary: words) (simp_all add: remove_one_count_distinct del: remove_one_count.simps)
  then show ?thesis using assms by (simp add: corrected_words_def remove_counts_def)
qed

lemma ex_corrected:
  "corrected_words ex_raw ex_incongruent ex_dublicate = [(''the'', 100), (''a'', 1)]"
  by (simp add: corrected_words_def remove_counts_def ex_raw_def ex_incongruent_def
      ex_dublicate_def counter_contains_def counter_dec_def counter_get_def AList.delete_eq)

text \<open>
  Claim C1. When the word counter is a dict and a word is left with a count \<open>c\<close> with
  \<open>1 \<le> c < 2 ^ 53\<close> after the corrections, the quota loop of \<open>split_words\<close> ends without
  a failed assertion and gives the word three quotas, the ones of \<open>word_quotas c\<close>: the
  test quota is at least 1, the validation and training quotas are not negative, and
  the three add up to \<open>c\<close>. The counts 1, 10 and 100 get (1, 0, 0), (1, 1, 8) and
  (10, 10, 80). The bound \<open>2 ^ 53\<close> is the range in which the floating-point quotients of
  the source have the ceilings that \<open>ceil_div\<close> computes.
\<close>

theorem split_words_quota_sum:
  assumes "distinct (map fst raw)"
    and "map_of (corrected_words raw incongruent_words dublicate_vectors) w = Some c"
    and "1 \<le> c"
    and "c < 2 ^ 53"
  shows "\<exists>tw vw trw.
           distribute (corrected_words raw incongruent_words dublicate_vectors) ([], [], [])
             = Inr (tw, vw, trw)
           \<and> (counter_get tw w, counter_get vw w, counter_get trw w) = word_quotas c
           \<and> 1 \<le> counter_get tw w \<and> 0 \<le> counter_get vw w \<and> 0 \<le> counter_get trw w
           \<and> counter_get tw w + counter_get vw w + counter_get trw w = c
           \<and> word_quotas 1 = (1, 0, 0) \<and> word_quotas 10 = (1, 1, 8)
           \<and> word_quotas 100 = (10, 10, 80)"
proof -
  let ?words = "corrected_words raw incongruent_words dublicate_vectors"
  let ?tw = "fold (\<lambda>p. AList.update (fst p) (fst (word_quotas (snd p)))) ?words []"
  let ?vw = "fold (\<lambda>p. AList.update (fst p) (fst (snd (word_quotas (snd p))))) ?words []"
  let ?trw = "fold (\<lambda>p. AList.update (fst p) (snd (snd (word_quotas (snd p))))) ?words []"
  have d: "distinct (map fst ?words)" using assms(1) by (rule corrected_words_distinct)
  have m: "(w, c) \<in> set ?words" using assms(2) by (rule map_of_SomeD)
  have run: "distribute ?words ([], [], []) = Inr (?tw, ?vw, ?trw)" by (rule distribute_total)
  have t: "counter_get ?tw w = fst (word_quotas c)"
    using fold_update_get[OF d m, where f = "\<lambda>c. fst (word_quotas c)" and acc = "[]"]
    by (simp add: counter_get_def)
  have v: "counter_get ?vw w = fst (snd (word_quotas c))"
    using fold_update_get[OF d m, where f = "\<lambda>c. fst (snd (word_quotas c))" and acc = "[]"]
    by (simp add: counter_get_def)
  have tr: "counter_get ?trw w = snd (snd (word_quotas c))"
    using fold_update_get[OF d m, where f = "\<lambda>c. snd (snd (word_quotas c))" and acc = "[]"]
    by (simp add: counter_get_def)
  have b: "1 \<le> fst (word_quotas c) \<and> 0 \<le> fst (snd (word_quotas c))
             \<and> 0 \<le> snd (snd (word_quotas c))
             \<and> fst (word_quotas c) + fst (snd (word_quotas c)) + snd (snd (word_quotas c)) = c"
    using word_quotas_bounds[OF assms(3)] by (simp add: case_prod_beta)
  have e: "word_quotas 1 = (1, 0, 0) \<and> word_quotas 10 = (1, 1, 8) \<and> word_quotas 100 = (10, 10, 80)"
    by (simp add: word_quotas_def ceil_div_def)
  show ?thesis
    apply (rule exI[of _ ?tw], rule exI[of _ ?vw], rule exI[of _ ?trw])
    using run t v tr b e by simp
qed

theorem split_words_quota_sum_witness:
  "distinct (map fst ex_raw)
   \<and> map_of (corrected_words ex_raw ex_incongruent ex_dublicate) ''the'' = Some 100
   \<and> (\<exists>tw vw trw.
         distribute (corrected_words ex_raw ex_incongruent ex_dublicate) ([], [], [])
           = Inr (tw, vw, trw)
         \<and> (counter_get tw ''the'', counter_get vw ''the'', counter_get trw ''the'')
           = (10, 10, 80))"
proof -
  have h1: "distinct (map fst ex_raw)" by (simp add: ex_raw_def)
  have h2: "map_of (corrected_words ex_raw ex_incongruent ex_dublicate) ''the'' = Some 100"
    by (simp add: ex_corrected)
  have h3: "(1::int) \<le> 100" by simp
  have h4: "(100::int) < 2 ^ 53" by simp
  from split_words_quota_sum[OF h1 h2 h3 h4] obtain tw vw trw where
    "distribute (corrected_words ex_raw ex_incongruent ex_dublicate) ([], [], []) = Inr (tw, vw, trw)"
    "(counter_get tw ''the'', counter_get vw ''the'', counter_get trw ''the'') = word_quotas 100"
    "word_quotas 100 = (10, 10, 80)"
    by blast
  then show ?thesis using h1 h2 by auto
qed

text \<open>
  Claim C8. On a word counter whose counts are all at least 1, the corrections of
  \<open>split_words\<close> take one count from a word for each time it is listed, first in the
  incongruent table and then in the duplicate-vector table. A word listed at least as
  often as it was counted is no longer a key, a listed word that is not a key (or a NaN
  cell) changes nothing, and every count that is left is at least 1.
\<close>

theorem split_words_corrections:
  assumes "positive_counts raw"
  shows "map_of (corrected_words raw incongruent_words dublicate_vectors) w =
           (let n = int (count_list (map cr_lexical_word incongruent_words) (Some w))
                    + int (count_list (map cr_lexical_word dublicate_vectors) (Some w))
            in if n < counter_get raw w then Some (counter_get raw w - n) else None)
         \<and> positive_counts (corrected_words raw incongruent_words dublicate_vectors)"
proof -
  let ?xs = "map cr_lexical_word incongruent_words @ map cr_lexical_word dublicate_vectors"
  have eq: "corrected_words raw incongruent_words dublicate_vectors = fold remove_one_count ?xs raw"
    by (simp add: corrected_words_def remove_counts_def)
  have pos: "positive_counts (fold remove_one_count xs words)" if "positive_counts words" for xs words
    using that by (induction xs arbitrary: words) (simp_all add: remove_one_count_positive del: remove_one_count.simps)
  have cnt: "int (count_list ?xs (Some w)) =
      int (count_list (map cr_lexical_word incongruent_words) (Some w))
        + int (count_list (map cr_lexical_word dublicate_vectors) (Some w))"
    by (induction incongruent_words) simp_all
  have "positive_counts (corrected_words raw incongruent_words dublicate_vectors)"
    unfolding eq by (rule pos[OF assms])
  moreover have "map_of (corrected_words raw incongruent_words dublicate_vectors) w =
           (let n = int (count_list (map cr_lexical_word incongruent_words) (Some w))
                    + int (count_list (map cr_lexical_word dublicate_vectors) (Some w))
            in if n < counter_get raw w then Some (counter_get raw w - n) else None)"
    unfolding eq fold_remove_map_of[OF assms] Let_def cnt by (rule refl)
  ultimately show ?thesis by simp
qed

theorem split_words_corrections_witness:
  "map_of (corrected_words ex_raw ex_incongruent ex_dublicate) ''the'' = Some 100
   \<and> map_of (corrected_words ex_raw ex_incongruent ex_dublicate) ''a'' = Some 1
   \<and> map_of (corrected_words ex_raw ex_incongruent ex_dublicate) ''b'' = None
   \<and> map_of (corrected_words ex_raw ex_incongruent ex_dublicate) ''zebra'' = None"
proof -
  have h: "positive_counts ex_raw"
    by (auto simp: positive_counts_def ex_raw_def split: if_splits)
  have g: "counter_get ex_raw ''the'' = 101" "counter_get ex_raw ''a'' = 2"
    "counter_get ex_raw ''b'' = 1" "counter_get ex_raw ''zebra'' = 0"
    by (simp_all add: counter_get_def ex_raw_def)
  show ?thesis
    using h split_words_corrections[OF h, of ex_incongruent ex_dublicate "''the''"]
      split_words_corrections[OF h, of ex_incongruent ex_dublicate "''a''"]
      split_words_corrections[OF h, of ex_incongruent ex_dublicate "''b''"]
      split_words_corrections[OF h, of ex_incongruent ex_dublicate "''zebra''"]
    by (simp add: g ex_incongruent_def ex_dublicate_def)
qed


section \<open>Properties of the batch sampler and the collator\<close>

lemma pad_tensor_short:
  assumes "length t \<le> n"
  shows "pad_tensor t (int n) False =
     (if t = [] \<and> 0 < n then Inl IndexError
      else Inr (t @ replicate (n - length t) (last t),
                replicate (length t) True @ replicate (n - length t) False))"
  using assms by (auto simp: pad_tensor_def Let_def nat_diff_distrib')

lemma collate_loop_result:
  assumes "\<forall>s \<in> set rest. length (fst s) = 2 * length (snd s) \<and> length (fst s) \<le> 2 * h"
  shows "collate_loop (int (2 * h)) (int h) rest (cps, mels, masks) =
     (if 0 < h \<and> (\<exists>s \<in> set rest. fst s = []) then Inl IndexError
      else Inr (cps @ map (\<lambda>s. fst s @ replicate (2 * h - length (fst s)) (last (fst s))) rest,
                mels @ map (\<lambda>s. snd s @ replicate (h - length (snd s)) (last (snd s))) rest,
                masks @ map (\<lambda>s. replicate (length (snd s)) True
                                  @ replicate (h - length (snd s)) False) rest))"
  using assms
proof (induction rest arbitrary: cps mels masks)
  case Nil
  show ?case by simp
next
  case (Cons s rest)
  have r: "length (fst s) = 2 * length (snd s)" and le: "length (fst s) \<le> 2 * h"
    using Cons.prems by auto
  have le': "length (snd s) \<le> h" using r le by simp
  have rest: "\<forall>s \<in> set rest. length (fst s) = 2 * length (snd s) \<and> length (fst s) \<le> 2 * h"
    using Cons.prems by (metis list.set_intros(2))
  have e: "(snd s = []) = (fst s = [])" using r by auto
  show ?case
  proof (cases "fst s = [] \<and> 0 < h")
    case True
    then have "pad_tensor (snd s) (int h) False = Inl IndexError"
      using e by (simp add: pad_tensor_def)
    then show ?thesis using True by (simp only: collate_loop.simps sum.case) auto
  next
    case False
    then have a: "pad_tensor (snd s) (int h) False =
        Inr (snd s @ replicate (h - length (snd s)) (last (snd s)),
             replicate (length (snd s)) True @ replicate (h - length (snd s)) False)"
      using e by (simp add: pad_tensor_short[OF le'])
    have b: "pad_tensor (fst s) (int (2 * h)) False =
        Inr (fst s @ replicate (2 * h - length (fst s)) (last (fst s)),
             replicate (length (fst s)) True @ replicate (2 * h - length (fst s)) False)"
      using False by (simp only: pad_tensor_short[OF le]) auto
    have len: "length (fst s @ replicate (2 * h - length (fst s)) (last (fst s)))
        = length (snd s @ replicate (h - length (snd s)) (last (snd s))) * 2"
      using le le' by simp
    show ?thesis
      using False
      by (simp only: collate_loop.simps a b sum.case prod.case len if_True Cons.IH[OF rest])
         auto
  qed
qed

text \<open>
  Claim C4, as the code has it. For a batch that is not empty and whose examples all
  have an articulatory length of twice the spectrogram length,
  \<open>collate_batch_with_padding\<close> pads every articulatory sequence to the largest
  articulatory length \<open>m\<close> of the batch and every spectrogram sequence to \<open>m div 2\<close>, by
  repeating the last timestep. The mask it keeps for an example is the one of the
  spectrogram: \<open>m div 2\<close> long and true on the timesteps the spectrogram had; the mask of
  the articulatory sequence is dropped, and no mask is returned. An example without
  timesteps in a batch with \<open>m > 0\<close> makes the call raise \<open>IndexError\<close>.
\<close>

theorem collate_pads_with_melspec_mask:
  assumes "batch \<noteq> []"
    and "\<forall>s \<in> set batch. length (fst s) = 2 * length (snd s)"
  shows "collate_locals batch =
     (let m = Max (set (map (\<lambda>s. length (fst s)) batch))
      in if 0 < m \<and> (\<exists>s \<in> set batch. fst s = []) then Inl IndexError
         else Inr (map (\<lambda>s. fst s @ replicate (m - length (fst s)) (last (fst s))) batch,
                   map (\<lambda>s. snd s @ replicate (m div 2 - length (snd s)) (last (snd s))) batch,
                   map (\<lambda>s. replicate (length (snd s)) True
                             @ replicate (m div 2 - length (snd s)) False) batch))
     \<and> collate_batch_with_padding batch =
         map_sum id (\<lambda>r. (fst r, fst (snd r))) (collate_locals batch)"
proof -
  let ?m = "Max (set (map (\<lambda>s. length (fst s)) batch))"
  have "?m \<in> set (map (\<lambda>s. length (fst s)) batch)"
    using assms(1) by (intro Max_in) auto
  then obtain s0 where s0: "s0 \<in> set batch" "?m = length (fst s0)" by auto
  define h where "h = length (snd s0)"
  have m: "?m = 2 * h" using s0 assms(2) by (simp add: h_def)
  have le: "\<forall>s \<in> set batch. length (fst s) \<le> ?m" by simp
  have pre: "\<forall>s \<in> set batch. length (fst s) = 2 * length (snd s) \<and> length (fst s) \<le> 2 * h"
    using assms(2) le unfolding m by blast
  have d: "int (2 * h) div 2 = int h" by simp
  have first: "collate_locals batch =
     (if 0 < h \<and> (\<exists>s \<in> set batch. fst s = []) then Inl IndexError
      else Inr (map (\<lambda>s. fst s @ replicate (2 * h - length (fst s)) (last (fst s))) batch,
                map (\<lambda>s. snd s @ replicate (h - length (snd s)) (last (snd s))) batch,
                map (\<lambda>s. replicate (length (snd s)) True
                          @ replicate (h - length (snd s)) False) batch))"
    using assms(1) unfolding collate_locals_def Let_def m d
    by (simp only: if_False collate_loop_result[OF pre] append_Nil)
  have second: "collate_batch_with_padding batch =
         map_sum id (\<lambda>r. (fst r, fst (snd r))) (collate_locals batch)"
    by (cases "collate_locals batch") (auto simp: collate_batch_with_padding_def)
  show ?thesis using first second unfolding Let_def m by simp
qed

lemma ex_batch_max: "Max (set (map (\<lambda>s. length (fst s)) ex_batch)) = 10"
  by (simp add: ex_batch_def)

theorem collate_pads_with_melspec_mask_witness:
  "ex_batch \<noteq> []
   \<and> collate_batch_with_padding ex_batch =
       Inr ([''abcdefffff'', ''ghijjjjjjj'', ''klmnopqrst''],
            [''ABCCC'', ''GHHHH'', ''KLMNO''])"
proof -
  have h1: "ex_batch \<noteq> []" by (simp add: ex_batch_def)
  have h2: "\<forall>s \<in> set ex_batch. length (fst s) = 2 * length (snd s)"
    by (simp add: ex_batch_def)
  show ?thesis
    using h1 h2 collate_pads_with_melspec_mask[OF h1 h2]
    unfolding ex_batch_max Let_def
    by (simp add: ex_batch_def) (simp add: numeral_eq_Suc)
qed

text \<open>
  Claim C4 as stated fails on the batch with articulatory lengths 6, 4 and 10: the mask
  of the example of length 4 has the five entries of the padded spectrogram, not ten.
\<close>

theorem collate_mask_counterexample:
  "map_sum id (\<lambda>r. snd (snd r) ! 1) (collate_locals ex_batch)
     = Inr [True, True, False, False, False]
   \<and> map_sum id (\<lambda>r. snd (snd r) ! 1) (collate_locals ex_batch)
     \<noteq> Inr [True, True, True, True, False, False, False, False, False, False]"
  by (simp add: collate_locals_def ex_batch_def pad_tensor_def numeral_eq_Suc)

text \<open>
  Claim C10. On a data source without examples and with a batch size other than 0,
  iterating the sampler yields no batch when \<open>drop_last\<close> is off, and raises
  \<open>IndexError\<close> when it is on, where \<open>batches[-1]\<close> is read from the empty list.
\<close>

theorem sampler_iter_empty_data_source:
  assumes "bs \<noteq> 0"
  shows "sampler_iter (sampler_init [] bs False) = Inr []
       \<and> sampler_iter (sampler_init [] bs True) = Inl IndexError"
  using assms
  by (simp add: sampler_iter_def sampler_init_def argsort_def range_from_zero_def)

theorem sampler_iter_empty_data_source_witness:
  "(2::int) \<noteq> 0 \<and> sampler_iter (sampler_init [] 2 False) = Inr []
       \<and> sampler_iter (sampler_init [] 2 True) = Inl IndexError"
proof -
  have h: "(2::int) \<noteq> 0" by simp
  show ?thesis using h sampler_iter_empty_data_source[OF h] by simp
qed

text \<open>
  Claim C9 at the empty data source with batch size 2 and \<open>drop_last\<close> set: \<open>__iter__\<close>
  raises \<open>IndexError\<close> where the claim has it yield no batch, and where \<open>__len__\<close> of the
  same sampler answers 0. On the lengths 5, 1, 3 the batches are the claimed ones.
\<close>

theorem sampler_iter_drop_last_disagrees_with_len:
  "sampler_iter \<lparr>sizes = [], batch_size = 2, drop_last = True\<rparr> = Inl IndexError
   \<and> sampler_len \<lparr>sizes = [], batch_size = 2, drop_last = True\<rparr> = Inr 0
   \<and> sampler_iter \<lparr>sizes = [5, 1, 3], batch_size = 2, drop_last = False\<rparr> = Inr [[1, 2], [0]]
   \<and> sampler_iter \<lparr>sizes = [5, 1, 3], batch_size = 2, drop_last = True\<rparr> = Inr [[1, 2]]"
  by (simp add: sampler_iter_def sampler_len_def argsort_def range_from_zero_def
      py_slice_def slice_bound_def upt_rec)


section \<open>Properties of the shard writer\<close>

lemma py_take_pos: "0 < ds \<Longrightarrow> py_take ds xs = take (nat ds) xs"
  by (simp add: py_take_def slice_bound_def min_def)

lemma py_drop_pos: "0 < ds \<Longrightarrow> py_drop ds xs = drop (nat ds) xs"
  by (simp add: py_drop_def slice_bound_def min_def)

lemma write_full_shards_step:
  assumes "0 < ds" "nat ds \<le> length df"
  shows "write_full_shards base ds df k fs =
      write_full_shards base ds (drop (nat ds) df) (k + 1) (fs @ [(base, k, take (nat ds) df)])"
proof -
  have ge': "ds \<le> int (length df)" using assms by linarith
  have len: "int (length df) = int (length (drop (nat ds) df)) + ds" using assms by simp
  have nonempty: "length (take (nat ds) df) \<noteq> 0" using assms by simp
  show ?thesis
    apply (subst write_full_shards.simps)
    apply (simp only: py_take_pos[OF assms(1)] py_drop_pos[OF assms(1)] Let_def ge' if_True nonempty
        len[symmetric] not_False_eq_True refl)
    done
qed

lemma write_full_shards_stop:
  assumes "length df < nat ds"
  shows "write_full_shards base ds df k fs = Some (Inr (df, k, fs))"
proof -
  have "\<not> ds \<le> int (length df)" using assms by linarith
  then show ?thesis by (subst write_full_shards.simps) (simp only: if_False)
qed

lemma write_full_shards_result:
  assumes "0 < ds"
  shows "write_full_shards base ds df k fs =
     Some (Inr (drop (length df div nat ds * nat ds) df,
                k + int (length df div nat ds),
                fs @ map (\<lambda>j. (base, k + int j, take (nat ds) (drop (j * nat ds) df)))
                       [0..<length df div nat ds]))"
proof (induction "length df div nat ds" arbitrary: df k fs)
  case 0
  then have "length df < nat ds" using assms by (simp add: div_eq_0_iff)
  then show ?case using 0 by (simp add: write_full_shards_stop)
next
  case (Suc n)
  let ?d = "nat ds"
  have dpos: "0 < ?d" using assms by simp
  have ge: "?d \<le> length df"
  proof (rule ccontr)
    assume "\<not> ?d \<le> length df"
    then have "length df div ?d = 0" by simp
    then show False using Suc.hyps(2) by simp
  qed
  have n: "n = length (drop ?d df) div ?d"
    using Suc.hyps(2) le_div_geq[OF dpos ge] by simp
  have q: "length df div ?d = Suc n" using Suc.hyps(2) by simp
  have d1: "drop (n * ?d) (drop ?d df) = drop (Suc n * ?d) df"
    by (simp add: add.commute)
  have k1: "k + 1 + int n = k + int (Suc n)" by simp
  have m: "(fs @ [(base, k, take ?d df)])
      @ map (\<lambda>j. (base, k + 1 + int j, take ?d (drop (j * ?d) (drop ?d df)))) [0..<n]
      = fs @ map (\<lambda>j. (base, k + int j, take ?d (drop (j * ?d) df))) [0..<Suc n]"
  proof -
    have "\<And>j. drop (j * ?d) (drop ?d df) = drop (Suc j * ?d) df" by (simp add: add.commute)
    moreover have "\<And>j. k + 1 + int j = k + int (Suc j)" by simp
    ultimately have "map (\<lambda>j. (base, k + 1 + int j, take ?d (drop (j * ?d) (drop ?d df)))) [0..<n]
       = map (\<lambda>j. (base, k + int (Suc j), take ?d (drop (Suc j * ?d) df))) [0..<n]"
      by (simp only:)
    then show ?thesis by (simp only: map_upt_Suc) simp
  qed
  have "write_full_shards base ds df k fs =
      write_full_shards base ds (drop ?d df) (k + 1) (fs @ [(base, k, take ?d df)])"
    using assms ge by (rule write_full_shards_step)
  also have "\<dots> = Some (Inr (drop (n * ?d) (drop ?d df), k + 1 + int n,
      (fs @ [(base, k, take ?d df)])
      @ map (\<lambda>j. (base, k + 1 + int j, take ?d (drop (j * ?d) (drop ?d df)))) [0..<n]))"
    using Suc.hyps(1)[OF n, of "k + 1" "fs @ [(base, k, take ?d df)]"] n by (simp only:)
  finally show ?case unfolding q d1 k1 m .
qed

lemma split_and_save_short:
  assumes "0 < ds" "int (length df) < ds"
  shows "split_and_save_dataframe df ds base k fs =
           Inr (fs @ (if df = [] then [] else [(base, k, df)]))"
proof (cases "df = []")
  case True
  then show ?thesis using assms by (simp add: split_and_save_dataframe_def)
next
  case False
  then have pos: "0 \<le> int (length df) - 1" by (cases df) simp_all
  have e: "int (length df) + ds - 1 = (int (length df) - 1) + ds" by simp
  have a: "((int (length df) - 1) + ds) div ds = (int (length df) - 1) div ds + 1"
    using assms(1) by (simp only: div_add_self2)
  have b: "(int (length df) - 1) div ds = 0"
    using pos assms(2) by (simp add: div_pos_pos_trivial)
  have one: "(int (length df) + ds - 1) div ds = 1" unfolding e a b by simp
  have ne: "ds \<noteq> 0" using assms(1) by simp
  show ?thesis
    unfolding split_and_save_dataframe_def Let_def one
    using assms False ne by (simp add: py_slice_def slice_bound_def)
qed

lemma write_full_shards_full:
  "0 < ds \<Longrightarrow> write_full_shards base ds df k fs =
     Some (Inr (drop (length df div nat ds * nat ds) df, k + int (length df div nat ds),
                fs @ full_shards base ds df k))"
  by (simp add: write_full_shards_result full_shards_def)

lemma concat_chunks: "concat (map (\<lambda>j. take d (drop (j * d) xs)) [0..<n]) = take (n * d) xs"
proof (induction n)
  case 0
  show ?case by simp
next
  case (Suc n)
  have "take (Suc n * d) xs = take (n * d + d) xs" by (simp add: add.commute)
  also have "\<dots> = take (n * d) xs @ take d (drop (n * d) xs)" by (rule take_add)
  finally show ?case using Suc by simp
qed

lemma written_rows_append [simp]: "written_rows (fs @ gs) = written_rows fs @ written_rows gs"
  by (simp add: written_rows_def)

lemma written_rows_full_shards:
  "written_rows (full_shards base ds df k) = take (length df div nat ds * nat ds) df"
  by (simp add: written_rows_def full_shards_def comp_def concat_chunks)

lemma full_shards_rows:
  "mset (written_rows (full_shards base ds df k)) + mset (drop (length df div nat ds * nat ds) df)
     = mset df"
  unfolding written_rows_full_shards by (metis append_take_drop_id mset_append)

lemma full_shards_sizes:
  assumes "0 < ds"
  shows "shards_ok ds (full_shards base ds df k)"
proof -
  let ?d = "nat ds"
  have key: "0 < length (take ?d (drop (j * ?d) df))
      \<and> int (length (take ?d (drop (j * ?d) df))) \<le> ds" if "j < length df div ?d" for j
  proof -
    have "Suc j * ?d \<le> (length df div ?d) * ?d" using that by (intro mult_le_mono1) simp
    also have "\<dots> \<le> length df" by simp
    finally have "?d + j * ?d \<le> length df" by simp
    then have len: "length (take ?d (drop (j * ?d) df)) = ?d" by simp
    show ?thesis unfolding len using assms by simp
  qed
  show ?thesis unfolding shards_ok_def full_shards_def list_all_iff
  proof (intro ballI)
    fix f
    assume "f \<in> set (map (\<lambda>j. (base, k + int j, take ?d (drop (j * ?d) df))) [0..<length df div ?d])"
    then obtain j where j: "j < length df div ?d"
      and f: "f = (base, k + int j, take ?d (drop (j * ?d) df))" by auto
    show "0 < length (snd (snd f)) \<and> int (length (snd (snd f))) \<le> ds"
      using key[OF j] unfolding f by (simp only: snd_conv)
  qed
qed

lemma shards_ok_append [simp]: "shards_ok ds (fs @ gs) = (shards_ok ds fs \<and> shards_ok ds gs)"
  by (simp add: shards_ok_def)

lemma shard_indices_append [simp]:
  "shard_indices b (fs @ gs) = shard_indices b fs @ shard_indices b gs"
  by (simp add: shard_indices_def)

lemma shard_indices_full_shards:
  "shard_indices b (full_shards base ds df k) =
     (if b = base then map (\<lambda>j. k + int j) [0..<length df div nat ds] else [])"
  by (simp add: shard_indices_def full_shards_def comp_def filter_map)

lemma indices_extend:
  assumes "0 \<le> k"
  shows "map int [0..<nat k] @ map (\<lambda>j. k + int j) [0..<n] = map int [0..<nat (k + int n)]"
proof (induction n)
  case 0
  show ?case by simp
next
  case (Suc n)
  have e: "nat (k + int (Suc n)) = Suc (nat (k + int n))" using assms by simp
  have f: "int (nat (k + int n)) = k + int n" using assms by simp
  have "map int [0..<nat k] @ map (\<lambda>j. k + int j) [0..<Suc n]
      = (map int [0..<nat k] @ map (\<lambda>j. k + int j) [0..<n]) @ [k + int n]" by simp
  also have "\<dots> = map int [0..<nat (k + int n)] @ [k + int n]" by (simp only: Suc)
  also have "\<dots> = map int [0..<nat (k + int (Suc n))]" unfolding e using assms by (simp add: f)
  finally show ?case .
qed

lemma rest_short:
  assumes "0 < ds"
  shows "int (length (drop (length df div nat ds * nat ds) df)) < ds"
proof -
  have "length df - length df div nat ds * nat ds = length df mod nat ds"
    by (simp add: minus_div_mult_eq_mod)
  moreover have "length df mod nat ds < nat ds" using assms by simp
  ultimately show ?thesis by simp
qed

section \<open>Properties of a run of split_data\<close>

lemma split_df_nonempty: "split_df s \<noteq> []"
  by (induction s rule: split_df.induct) (auto split: list.splits)

lemma unique_identifier_prefix:
  assumes "startswith name ''corpus_as_df_mp_epoch_''"
  shows "\<exists>u. unique_identifier name = Inr u"
proof -
  have "take (length ''corpus_as_df_mp_epoch_'') name = ''corpus_as_df_mp_epoch_''"
    using assms unfolding startswith_def .
  then have "name = ''corpus_as_df_mp_epoch_'' @ drop (length ''corpus_as_df_mp_epoch_'') name"
    by (metis append_take_drop_id)
  then obtain r where name: "name = ''corpus_as_df_mp_epoch_'' @ r" by blast
  obtain p ps where s: "split_df (''_mp_epoch_'' @ r) = p # ps"
    using split_df_nonempty[of "''_mp_epoch_'' @ r"] by (cases "split_df (''_mp_epoch_'' @ r)") auto
  have "split_df name = ''corpus_as_'' # p # ps"
    unfolding name using s by simp
  then show ?thesis by (simp add: unique_identifier_def)
qed

lemma all_rows_cong:
  "written st' = written st \<Longrightarrow> test_df st' = test_df st \<Longrightarrow>
   validation_df st' = validation_df st \<Longrightarrow> training_df st' = training_df st \<Longrightarrow>
   all_rows st' = all_rows st"
  by (simp add: all_rows_def)

lemma indices_ok_cong:
  "written st' = written st \<Longrightarrow> test_index st' = test_index st \<Longrightarrow>
   validation_index st' = validation_index st \<Longrightarrow> training_index st' = training_index st \<Longrightarrow>
   indices_ok st' = indices_ok st"
  by (simp add: indices_ok_def)

lemma buffers_flushed_cong:
  "test_df st' = test_df st \<Longrightarrow> validation_df st' = validation_df st \<Longrightarrow>
   training_df st' = training_df st \<Longrightarrow> buffers_flushed ds st' = buffers_flushed ds st"
  by (simp add: buffers_flushed_def)

lemma write_all_full_shards_props:
  assumes "0 < ds" "shards_ok ds (written st)" "indices_ok st"
  shows "\<exists>st'. write_all_full_shards ds st = Some (Inr st')
           \<and> all_rows st' = all_rows st \<and> buffers_flushed ds st'
           \<and> shards_ok ds (written st') \<and> indices_ok st'
           \<and> log st' = log st \<and> skip_index st' = skip_index st
           \<and> checkpoints st' = checkpoints st \<and> var_i st' = var_i st
           \<and> test_words st' = test_words st \<and> validation_words st' = validation_words st
           \<and> training_words st' = training_words st"
proof -
  let ?nT = "length (test_df st) div nat ds"
  let ?nV = "length (validation_df st) div nat ds"
  let ?nR = "length (training_df st) div nat ds"
  let ?T = "full_shards ''test_data'' ds (test_df st) (test_index st)"
  let ?V = "full_shards ''validation_data'' ds (validation_df st) (validation_index st)"
  let ?R = "full_shards ''training_data'' ds (training_df st) (training_index st)"
  let ?dT = "drop (?nT * nat ds) (test_df st)"
  let ?dV = "drop (?nV * nat ds) (validation_df st)"
  let ?dR = "drop (?nR * nat ds) (training_df st)"
  define st' where "st' = st\<lparr>test_df := ?dT, test_index := test_index st + int ?nT,
      validation_df := ?dV, validation_index := validation_index st + int ?nV,
      training_df := ?dR, training_index := training_index st + int ?nR,
      written := ((written st @ ?T) @ ?V) @ ?R\<rparr>"
  have run: "write_all_full_shards ds st = Some (Inr st')"
    by (simp add: write_all_full_shards_def write_full_shards_full[OF assms(1)] Let_def st'_def)
  have rows: "all_rows st' = all_rows st"
  proof -
    have "all_rows st = mset (written_rows (written st))
        + (mset (written_rows ?T) + mset ?dT) + (mset (written_rows ?V) + mset ?dV)
        + (mset (written_rows ?R) + mset ?dR)"
      by (simp only: all_rows_def full_shards_rows)
    also have "\<dots> = all_rows st'" by (simp add: all_rows_def st'_def)
    finally show ?thesis by simp
  qed
  have flushed: "buffers_flushed ds st'"
    using rest_short[OF assms(1), of "test_df st"] rest_short[OF assms(1), of "validation_df st"]
      rest_short[OF assms(1), of "training_df st"]
    by (simp add: buffers_flushed_def st'_def del: length_drop)
  have sizes: "shards_ok ds (written st')"
    using assms(2) by (simp add: st'_def full_shards_sizes[OF assms(1)])
  have i0: "0 \<le> test_index st" "0 \<le> validation_index st" "0 \<le> training_index st"
    using assms(3) by (simp_all add: indices_ok_def)
  have idx: "indices_ok st'"
    using assms(3) i0 indices_extend[OF i0(1), of ?nT] indices_extend[OF i0(2), of ?nV]
      indices_extend[OF i0(3), of ?nR]
    by (simp add: indices_ok_def st'_def shard_indices_full_shards)
  show ?thesis
    apply (rule exI[of _ st'])
    using run rows flushed sizes idx by (simp add: st'_def)
qed

lemma process_row_props:
  fixes st :: "'a state" and clean dups uid lr
  defines "st' \<equiv> process_row clean dups uid lr st"
  shows "mset (test_rows st') + mset (validation_rows st') + mset (training_rows st')
     = mset (test_rows st) + mset (validation_rows st) + mset (training_rows st)
       + (if survives clean dups lr then {#as_out_row uid lr#} else {#})"
    and "discarded (log st') + (if survives clean dups lr then 1 else 0) = discarded (log st) + 1"
    and "test_df st' = test_df st \<and> validation_df st' = validation_df st
       \<and> training_df st' = training_df st \<and> written st' = written st
       \<and> test_index st' = test_index st \<and> validation_index st' = validation_index st
       \<and> training_index st' = training_index st \<and> skip_index st' = skip_index st
       \<and> checkpoints st' = checkpoints st"
  unfolding st'_def
  by (simp_all add: process_row_def route_row_def Let_def survives_def as_out_row_def discarded_def)

lemma process_rows_props:
  fixes st :: "'a state"
  shows "mset (test_rows (process_rows clean dups uid data st))
       + mset (validation_rows (process_rows clean dups uid data st))
       + mset (training_rows (process_rows clean dups uid data st))
     = mset (test_rows st) + mset (validation_rows st) + mset (training_rows st)
       + mset (map (as_out_row uid) (filter (survives clean dups) data))
    \<and> discarded (log (process_rows clean dups uid data st))
         + length (filter (survives clean dups) data) = discarded (log st) + length data
    \<and> test_df (process_rows clean dups uid data st) = test_df st
    \<and> validation_df (process_rows clean dups uid data st) = validation_df st
    \<and> training_df (process_rows clean dups uid data st) = training_df st
    \<and> written (process_rows clean dups uid data st) = written st
    \<and> test_index (process_rows clean dups uid data st) = test_index st
    \<and> validation_index (process_rows clean dups uid data st) = validation_index st
    \<and> training_index (process_rows clean dups uid data st) = training_index st
    \<and> skip_index (process_rows clean dups uid data st) = skip_index st
    \<and> checkpoints (process_rows clean dups uid data st) = checkpoints st"
proof (induction data arbitrary: st)
  case Nil
  show ?case by (simp add: process_rows_def)
next
  case (Cons lr data)
  have unfold: "process_rows clean dups uid (lr # data) st
      = process_rows clean dups uid data (process_row clean dups uid lr st)"
    by (simp add: process_rows_def)
  show ?case
    unfolding unfold
    using Cons[of "process_row clean dups uid lr st"]
      process_row_props(1)[of clean dups uid lr st]
      process_row_props(2)[of clean dups uid lr st]
      process_row_props(3)[of clean dups uid lr st]
    by (auto split: if_splits)
qed

lemma save_counters_frame:
  "written (save_counters st) = written st \<and> test_df (save_counters st) = test_df st
   \<and> validation_df (save_counters st) = validation_df st
   \<and> training_df (save_counters st) = training_df st
   \<and> test_index (save_counters st) = test_index st
   \<and> validation_index (save_counters st) = validation_index st
   \<and> training_index (save_counters st) = training_index st
   \<and> skip_index (save_counters st) = skip_index st \<and> log (save_counters st) = log st"
  by (simp add: save_counters_def Let_def)

lemma process_file_skip:
  assumes "0 < skip_index st"
  shows "process_file clean dv ds file st =
     Some (Inr (st\<lparr>test_rows := [], validation_rows := [], training_rows := [],
                    skip_index := skip_index st - 1,
                    log := log st @ [LogSkippingFile (file_name file)]\<rparr>))"
  using assms by (simp add: process_file_def Let_def)

lemma process_file_run:
  assumes ds: "0 < ds" and noskip: "\<not> 0 < skip_index st"
    and pkl: "endswith (file_name file) ''.pkl''"
    and pre: "startswith (file_name file) ''corpus_as_df_mp_epoch_''"
    and disk: "enough_disk file"
    and inv: "buffers_flushed ds st" "shards_ok ds (written st)" "indices_ok st"
  shows "\<exists>st'. process_file clean dv ds file st = Some (Inr st')
           \<and> all_rows st' = all_rows st + mset (survivors clean dv file)
           \<and> discarded (log st') + length (survivors clean dv file)
               = discarded (log st) + length (file_rows file)
           \<and> skip_index st' = skip_index st
           \<and> buffers_flushed ds st' \<and> shards_ok ds (written st') \<and> indices_ok st'"
proof -
  define st0 where "st0 = st\<lparr>test_rows := [], validation_rows := [], training_rows := []\<rparr>"
  have free: "\<not> free_bytes file div 2 ^ 30 < 25" using disk by (simp add: enough_disk_def)
  have st0: "written st0 = written st" "test_df st0 = test_df st"
    "validation_df st0 = validation_df st" "training_df st0 = training_df st"
    "test_index st0 = test_index st" "validation_index st0 = validation_index st"
    "training_index st0 = training_index st" "skip_index st0 = skip_index st"
    "log st0 = log st" "test_rows st0 = []" "validation_rows st0 = []" "training_rows st0 = []"
    by (simp_all add: st0_def)
  show ?thesis
  proof (cases "contents file")
    case OtherObject
    have run: "process_file clean dv ds file st = Some (Inr st0)"
      using noskip pkl free OtherObject by (simp add: process_file_def Let_def st0_def)
    have none: "survivors clean dv file = []" "file_rows file = []"
      using OtherObject by (simp_all add: survivors_def file_rows_def)
    show ?thesis
      apply (rule exI[of _ st0])
      using run none inv st0
      by (simp add: all_rows_cong[of st0 st] indices_ok_cong[of st0 st]
          buffers_flushed_cong[of st0 st])
  next
    case (DataFrame data)
    obtain u where u: "unique_identifier (file_name file) = Inr u"
      using unique_identifier_prefix[OF pre] by blast
    define st1 where "st1 = process_rows clean (dropna dv) u data st0"
    define st2 where "st2 = st1\<lparr>test_df := test_df st1 @ test_rows st1,
        validation_df := validation_df st1 @ validation_rows st1,
        training_df := training_df st1 @ training_rows st1\<rparr>"
    note P = process_rows_props[of clean "dropna dv" u data st0, folded st1_def]
    have surv: "survivors clean dv file = map (as_out_row u) (filter (survives clean (dropna dv)) data)"
      using DataFrame u by (simp add: survivors_def file_rows_def uid_of_def)
    have rows: "file_rows file = data" using DataFrame by (simp add: file_rows_def)
    have w2: "written st2 = written st" "test_index st2 = test_index st"
      "validation_index st2 = validation_index st" "training_index st2 = training_index st"
      "skip_index st2 = skip_index st" "log st2 = log st1"
      using P st0 by (simp_all add: st2_def)
    have ok2: "shards_ok ds (written st2)" "indices_ok st2"
      using inv w2 by (simp_all add: indices_ok_cong[of st2 st])
    have all2: "all_rows st2 = all_rows st + mset (survivors clean dv file)"
    proof -
      have "all_rows st2 = all_rows st
          + (mset (test_rows st1) + mset (validation_rows st1) + mset (training_rows st1))"
        using P st0 by (simp add: all_rows_def st2_def ac_simps)
      also have "mset (test_rows st1) + mset (validation_rows st1) + mset (training_rows st1)
          = mset (survivors clean dv file)"
        using P st0 by (simp add: surv ac_simps)
      finally show ?thesis .
    qed
    have log2: "discarded (log st1) + length (survivors clean dv file)
        = discarded (log st) + length (file_rows file)"
      using P st0 by (simp add: surv rows)
    obtain st3 where st3: "write_all_full_shards ds st2 = Some (Inr st3)"
      "all_rows st3 = all_rows st2" "buffers_flushed ds st3" "shards_ok ds (written st3)"
      "indices_ok st3" "log st3 = log st2" "skip_index st3 = skip_index st2"
      using write_all_full_shards_props[OF ds ok2] by blast
    have run: "process_file clean dv ds file st = Some (Inr (save_counters st3))"
      using noskip pkl free DataFrame u st3(1) st0(8)
      by (simp add: process_file_def Let_def st0_def[symmetric] st1_def[symmetric]
          st2_def[symmetric])
    note S = save_counters_frame[of st3]
    show ?thesis
      apply (rule exI[of _ "save_counters st3"])
      using run S st3 all2 log2 w2
      by (simp add: all_rows_cong[of "save_counters st3" st3]
          indices_ok_cong[of "save_counters st3" st3]
          buffers_flushed_cong[of "save_counters st3" st3])
  qed
qed

lemma process_files_result:
  assumes ds: "0 < ds"
    and names: "\<forall>f \<in> set files. endswith (file_name f) ''.pkl''
                  \<and> startswith (file_name f) ''corpus_as_df_mp_epoch_''"
    and disk: "\<forall>f \<in> set (drop (nat (skip_index st)) files). enough_disk f"
    and inv: "buffers_flushed ds st" "shards_ok ds (written st)" "indices_ok st"
  shows "\<exists>st'. process_files clean dv ds files st = Some (Inr st')
     \<and> all_rows st' = all_rows st
          + mset (concat (map (survivors clean dv) (drop (nat (skip_index st)) files)))
     \<and> discarded (log st')
          + length (concat (map (survivors clean dv) (drop (nat (skip_index st)) files)))
        = discarded (log st) + length (concat (map file_rows (drop (nat (skip_index st)) files)))
     \<and> buffers_flushed ds st' \<and> shards_ok ds (written st') \<and> indices_ok st'"
  using names disk inv
proof (induction files arbitrary: st)
  case Nil
  then show ?case by simp
next
  case (Cons f files)
  have names': "\<forall>f \<in> set files. endswith (file_name f) ''.pkl''
                  \<and> startswith (file_name f) ''corpus_as_df_mp_epoch_''"
    using Cons.prems(1) by simp
  show ?case
  proof (cases "0 < skip_index st")
    case True
    define st1 where "st1 = st\<lparr>test_rows := [], validation_rows := [], training_rows := [],
                    skip_index := skip_index st - 1,
                    log := log st @ [LogSkippingFile (file_name f)]\<rparr>"
    have step: "process_file clean dv ds f st = Some (Inr st1)"
      unfolding st1_def using True by (rule process_file_skip)
    have d: "drop (nat (skip_index st)) (f # files) = drop (nat (skip_index st1)) files"
    proof -
      have "nat (skip_index st) = Suc (nat (skip_index st - 1))" using True by simp
      then show ?thesis by (simp add: st1_def)
    qed
    have f1: "written st1 = written st" "test_df st1 = test_df st"
      "validation_df st1 = validation_df st" "training_df st1 = training_df st"
      "test_index st1 = test_index st" "validation_index st1 = validation_index st"
      "training_index st1 = training_index st"
      by (simp_all add: st1_def)
    have inv1: "buffers_flushed ds st1" "shards_ok ds (written st1)" "indices_ok st1"
      using Cons.prems(3-5) f1
      by (simp_all add: buffers_flushed_cong[of st1 st] indices_ok_cong[of st1 st])
    have disk1: "\<forall>f \<in> set (drop (nat (skip_index st1)) files). enough_disk f"
      using Cons.prems(2) unfolding d .
    have l1: "discarded (log st1) = discarded (log st)" by (simp add: st1_def discarded_def)
    have a1: "all_rows st1 = all_rows st" using f1 by (simp add: all_rows_cong[of st1 st])
    from Cons.IH[OF names' disk1 inv1] obtain st' where
      "process_files clean dv ds files st1 = Some (Inr st')"
      "all_rows st' = all_rows st1
          + mset (concat (map (survivors clean dv) (drop (nat (skip_index st1)) files)))"
      "discarded (log st')
          + length (concat (map (survivors clean dv) (drop (nat (skip_index st1)) files)))
        = discarded (log st1) + length (concat (map file_rows (drop (nat (skip_index st1)) files)))"
      "buffers_flushed ds st'" "shards_ok ds (written st')" "indices_ok st'"
      by blast
    then show ?thesis
      apply (intro exI[of _ st'])
      unfolding d l1 a1 using step by simp
  next
    case False
    have z: "nat (skip_index st) = 0" using False by simp
    have d: "drop (nat (skip_index st)) (f # files) = f # files" by (simp add: z)
    have pkl: "endswith (file_name f) ''.pkl''"
      and pre: "startswith (file_name f) ''corpus_as_df_mp_epoch_''"
      using Cons.prems(1) by simp_all
    have disk_f: "enough_disk f" using Cons.prems(2) unfolding d by simp
    from process_file_run[OF ds False pkl pre disk_f Cons.prems(3-5), of clean dv]
    obtain st1 where st1: "process_file clean dv ds f st = Some (Inr st1)"
      "all_rows st1 = all_rows st + mset (survivors clean dv f)"
      "discarded (log st1) + length (survivors clean dv f)
               = discarded (log st) + length (file_rows f)"
      "skip_index st1 = skip_index st"
      "buffers_flushed ds st1" "shards_ok ds (written st1)" "indices_ok st1"
      by blast
    have d1: "drop (nat (skip_index st1)) files = files" using st1(4) z by simp
    have disk1: "\<forall>f \<in> set (drop (nat (skip_index st1)) files). enough_disk f"
      unfolding d1 using Cons.prems(2) unfolding d by simp
    from Cons.IH[OF names' disk1 st1(5-7)] obtain st' where st':
      "process_files clean dv ds files st1 = Some (Inr st')"
      "all_rows st' = all_rows st1 + mset (concat (map (survivors clean dv) files))"
      "discarded (log st') + length (concat (map (survivors clean dv) files))
        = discarded (log st1) + length (concat (map file_rows files))"
      "buffers_flushed ds st'" "shards_ok ds (written st')" "indices_ok st'"
      unfolding d1 by blast
    show ?thesis
      apply (intro exI[of _ st'])
      unfolding d using st1(1-3) st' by (simp add: ac_simps)
  qed
qed

lemma sorted_files_names:
  "\<forall>f \<in> set (sorted_files directory). endswith (file_name f) ''.pkl''
      \<and> startswith (file_name f) ''corpus_as_df_mp_epoch_''"
  by (simp add: sorted_files_def)

lemma initial_state_inv:
  "0 < ds \<Longrightarrow> buffers_flushed ds (initial_state skip tw vw trw)"
  "shards_ok ds (written (initial_state skip tw vw trw))"
  "indices_ok (initial_state skip tw vw trw)"
  "all_rows (initial_state skip tw vw trw) = {#}"
  "discarded (log (initial_state skip tw vw trw)) = 0"
  "skip_index (initial_state skip tw vw trw) = skip"
  by (simp_all add: initial_state_def buffers_flushed_def shards_ok_def indices_ok_def
      shard_indices_def all_rows_def written_rows_def discarded_def)

lemma split_data_result:
  assumes ds: "0 < ds"
    and disk: "\<forall>f \<in> set (processed_files directory skip). enough_disk f"
  shows "\<exists>st. split_data clean directory skip tw vw trw dv ds = Some (Inr st)
     \<and> mset (written_rows (written st))
         = mset (concat (map (survivors clean dv) (processed_files directory skip)))
     \<and> discarded (log st)
         + length (concat (map (survivors clean dv) (processed_files directory skip)))
        = length (concat (map file_rows (processed_files directory skip)))
     \<and> shards_ok ds (written st)
     \<and> shard_indices ''test_data'' (written st)
         = map int [0..<length (shard_indices ''test_data'' (written st))]
     \<and> shard_indices ''validation_data'' (written st)
         = map int [0..<length (shard_indices ''validation_data'' (written st))]
     \<and> shard_indices ''training_data'' (written st)
         = map int [0..<length (shard_indices ''training_data'' (written st))]"
proof -
  let ?st0 = "initial_state skip tw vw trw :: 'a state"
  let ?P = "processed_files directory skip"
  have disk0: "\<forall>f \<in> set (drop (nat (skip_index ?st0)) (sorted_files directory)). enough_disk f"
    using disk by (simp add: processed_files_def initial_state_inv(6))
  from process_files_result[OF ds sorted_files_names disk0 initial_state_inv(1)[OF ds]
      initial_state_inv(2) initial_state_inv(3), of clean dv]
  obtain st1 where st1: "process_files clean dv ds (sorted_files directory) ?st0 = Some (Inr st1)"
    "all_rows st1 = mset (concat (map (survivors clean dv) ?P))"
    "discarded (log st1) + length (concat (map (survivors clean dv) ?P))
        = length (concat (map file_rows ?P))"
    "buffers_flushed ds st1" "shards_ok ds (written st1)" "indices_ok st1"
    unfolding initial_state_inv(4) initial_state_inv(5) initial_state_inv(6)
      processed_files_def[symmetric]
    by auto
  let ?t = "if test_df st1 = [] then [] else [(''test_data'', test_index st1, test_df st1)]"
  let ?v = "if validation_df st1 = [] then []
            else [(''validation_data'', validation_index st1, validation_df st1)]"
  let ?r = "if training_df st1 = [] then []
            else [(''training_data'', training_index st1, training_df st1)]"
  have short: "int (length (test_df st1)) < ds" "int (length (validation_df st1)) < ds"
    "int (length (training_df st1)) < ds"
    using st1(4) by (simp_all add: buffers_flushed_def)
  define st where "st = st1\<lparr>written := ((written st1 @ ?t) @ ?v) @ ?r\<rparr>"
  have run: "split_data clean directory skip tw vw trw dv ds = Some (Inr st)"
    unfolding split_data_def st1(1)
    by (simp only: option.case sum.case split_and_save_short[OF ds short(1)]
        split_and_save_short[OF ds short(2)] split_and_save_short[OF ds short(3)] st_def)
  have w: "written st = ((written st1 @ ?t) @ ?v) @ ?r" by (simp add: st_def)
  have rows: "mset (written_rows (written st)) = all_rows st1"
    unfolding w by (simp add: all_rows_def written_rows_def)
  have lg: "log st = log st1" by (simp add: st_def)
  have ok: "shards_ok ds (written st)"
    unfolding w using st1(5) short by (simp add: shards_ok_def)
  have i: "0 \<le> test_index st1" "0 \<le> validation_index st1" "0 \<le> training_index st1"
    "shard_indices ''test_data'' (written st1) = map int [0..<nat (test_index st1)]"
    "shard_indices ''validation_data'' (written st1) = map int [0..<nat (validation_index st1)]"
    "shard_indices ''training_data'' (written st1) = map int [0..<nat (training_index st1)]"
    using st1(6) by (simp_all add: indices_ok_def)
  have it: "shard_indices ''test_data'' (written st)
         = map int [0..<length (shard_indices ''test_data'' (written st))]"
    unfolding w using i(1) i(4) by (simp add: shard_indices_def)
  have iv: "shard_indices ''validation_data'' (written st)
         = map int [0..<length (shard_indices ''validation_data'' (written st))]"
    unfolding w using i(2) i(5) by (simp add: shard_indices_def)
  have ir: "shard_indices ''training_data'' (written st)
         = map int [0..<length (shard_indices ''training_data'' (written st))]"
    unfolding w using i(3) i(6) by (simp add: shard_indices_def)
  show ?thesis
    apply (rule exI[of _ st])
    using run rows st1(2) st1(3) lg ok it iv ir by simp
qed








section \<open>Properties of the output shards\<close>

lemma ex_processed:
  "processed_files ex_directory 0 =
     [ex_shard ''0'' [(0, ex_row ''a''),
                      (1, \<lparr>lexical_word = ''x'', mfa_word = ''y'', features = ()\<rparr>),
                      (2, ex_row ''a'')],
      ex_shard ''1'' [(0, ex_row ''a''), (1, ex_row ''a''), (2, ex_row ''a'')]]"
  by code_simp

lemma ex_disk: "\<forall>f \<in> set (processed_files ex_directory 0). enough_disk f"
  unfolding ex_processed by (simp add: enough_disk_def ex_shard_def)

lemma ex_run:
  "map_option (map_sum fst (\<lambda>st. (map (\<lambda>f. (fst f, fst (snd f), map origin (snd (snd f))))
        (written st), discarded (log st))))
     (split_data id ex_directory 0 [(''a'', 3)] [] [] ex_dublicate_vectors 2)
   = Some (Inr ([(''test_data'', 0, [(''_mp_epoch_0.pkl'', 2), (''_mp_epoch_1.pkl'', 1)]),
                 (''test_data'', 1, [(''_mp_epoch_1.pkl'', 2)])], 3))"
  by code_simp




text \<open>
  Claim C6. A run with \<open>data_size > 0\<close> that finds enough free disk space for every
  source shard returns; the rows of its output shards are, as a multiset, the rows of
  the processed source shards that pass both filters, and the number of written rows
  plus the number of rows logged as discarded (word mismatch or duplicate vector) is the
  number of rows of the processed source shards.
\<close>

theorem rows_are_conserved:
  assumes "0 < data_size"
    and "\<forall>f \<in> set (processed_files directory skip). enough_disk f"
  shows "\<exists>st. split_data clean directory skip tw vw trw dublicate_vectors data_size
                 = Some (Inr st)
           \<and> mset (written_rows (written st))
               = mset (concat (map (survivors clean dublicate_vectors)
                                 (processed_files directory skip)))
           \<and> length (written_rows (written st)) + discarded (log st)
               = length (concat (map file_rows (processed_files directory skip)))"
proof -
  from split_data_result[OF assms, of clean tw vw trw dublicate_vectors]
  obtain st where st: "split_data clean directory skip tw vw trw dublicate_vectors data_size
                 = Some (Inr st)"
    "mset (written_rows (written st))
         = mset (concat (map (survivors clean dublicate_vectors) (processed_files directory skip)))"
    "discarded (log st)
         + length (concat (map (survivors clean dublicate_vectors) (processed_files directory skip)))
        = length (concat (map file_rows (processed_files directory skip)))"
    by blast
  have "length (written_rows (written st))
      = length (concat (map (survivors clean dublicate_vectors) (processed_files directory skip)))"
    using st(2) by (rule mset_eq_length)
  then show ?thesis using st by (intro exI[of _ st]) simp
qed

theorem rows_are_conserved_witness:
  "\<exists>st. split_data id ex_directory 0 [(''a'', 3)] [] [] ex_dublicate_vectors 2 = Some (Inr st)
      \<and> length (written_rows (written st)) = 3 \<and> discarded (log st) = 3
      \<and> length (concat (map file_rows (processed_files ex_directory 0))) = 6"
proof -
  have h1: "0 < (2::int)" by simp
  from rows_are_conserved[OF h1 ex_disk, of id "[(''a'', 3)]" "[]" "[]" ex_dublicate_vectors]
  obtain st where st: "split_data id ex_directory 0 [(''a'', 3)] [] [] ex_dublicate_vectors 2
      = Some (Inr st)"
    "length (written_rows (written st)) + discarded (log st)
       = length (concat (map file_rows (processed_files ex_directory 0)))"
    by blast
  have d: "discarded (log st) = 3" using ex_run st(1) by simp
  have n: "length (concat (map file_rows (processed_files ex_directory 0))) = 6"
    unfolding ex_processed by (simp add: file_rows_def ex_shard_def)
  show ?thesis using st d n by (intro exI[of _ st]) simp
qed

lemma survivors_origins:
  "map origin (survivors clean dv f)
     = map (\<lambda>lr. (uid_of f, fst lr)) (filter (survives clean (dropna dv)) (file_rows f))"
  by (simp add: survivors_def as_out_row_def comp_def)

lemma distinct_survivor_origins:
  assumes "distinct (map uid_of fs)" "\<forall>f \<in> set fs. distinct (map fst (file_rows f))"
  shows "distinct (map origin (concat (map (survivors clean dv) fs)))"
  using assms
proof (induction fs)
  case Nil
  show ?case by simp
next
  case (Cons f fs)
  have here: "distinct (map origin (survivors clean dv f))"
  proof -
    have "distinct (map fst (filter (survives clean (dropna dv)) (file_rows f)))"
      using Cons.prems(2) by (simp add: distinct_map_filter)
    then have "distinct (map (Pair (uid_of f)) (map fst (filter (survives clean (dropna dv)) (file_rows f))))"
      by (simp add: distinct_map inj_on_def)
    then show ?thesis by (simp add: survivors_origins comp_def)
  qed
  have rest: "distinct (map origin (concat (map (survivors clean dv) fs)))"
    using Cons by simp
  have tag: "fst x = uid_of g" if "x \<in> set (map origin (survivors clean dv g))" for x g
    using that by (auto simp: survivors_origins)
  have disj: "set (map origin (survivors clean dv f))
      \<inter> set (map origin (concat (map (survivors clean dv) fs))) = {}"
  proof (rule ccontr)
    assume "set (map origin (survivors clean dv f))
      \<inter> set (map origin (concat (map (survivors clean dv) fs))) \<noteq> {}"
    then obtain x where x1: "x \<in> set (map origin (survivors clean dv f))"
      and x2: "x \<in> set (map origin (concat (map (survivors clean dv) fs)))" by blast
    from x2 obtain g where g: "g \<in> set fs" "x \<in> set (map origin (survivors clean dv g))"
      by auto
    have "uid_of f = uid_of g" using tag[OF x1] tag[OF g(2)] by simp
    then have "uid_of f \<in> uid_of ` set fs" using g(1) by simp
    then show False using Cons.prems(1) by simp
  qed
  show ?case using here rest disj by simp
qed

text \<open>
  Claim C7, as the code has it. In a run as above, every written row is a row of a
  processed source shard and its \<open>origin\<close> is the pair of that shard's identifier and the
  row's index label. When the processed shards have different identifiers and no shard
  has an index label twice, no two written rows have the same origin.
\<close>

theorem origins_are_unique:
  assumes "0 < data_size"
    and "\<forall>f \<in> set (processed_files directory skip). enough_disk f"
    and "distinct (map uid_of (processed_files directory skip))"
    and "\<forall>f \<in> set (processed_files directory skip). distinct (map fst (file_rows f))"
  shows "\<exists>st. split_data clean directory skip tw vw trw dublicate_vectors data_size
                 = Some (Inr st)
           \<and> distinct (map origin (written_rows (written st)))
           \<and> (\<forall>r \<in> set (written_rows (written st)).
                 \<exists>f \<in> set (processed_files directory skip). \<exists>lr \<in> set (file_rows f).
                   r = as_out_row (uid_of f) lr \<and> origin r = (uid_of f, fst lr))"
proof -
  let ?S = "concat (map (survivors clean dublicate_vectors) (processed_files directory skip))"
  from split_data_result[OF assms(1,2), of clean tw vw trw dublicate_vectors]
  obtain st where st: "split_data clean directory skip tw vw trw dublicate_vectors data_size
                 = Some (Inr st)"
    "mset (written_rows (written st)) = mset ?S"
    by blast
  have "mset (map origin (written_rows (written st))) = mset (map origin ?S)"
    using st(2) by simp
  moreover have "distinct (map origin ?S)"
    using assms(3,4) by (rule distinct_survivor_origins)
  ultimately have d: "distinct (map origin (written_rows (written st)))"
    using mset_eq_imp_distinct_iff by blast
  have s: "set (written_rows (written st)) = set ?S" using st(2) by (rule mset_eq_setD)
  have o: "\<forall>r \<in> set (written_rows (written st)).
                 \<exists>f \<in> set (processed_files directory skip). \<exists>lr \<in> set (file_rows f).
                   r = as_out_row (uid_of f) lr \<and> origin r = (uid_of f, fst lr)"
    unfolding s
  proof
    fix r
    assume "r \<in> set ?S"
    then obtain f where f: "f \<in> set (processed_files directory skip)"
      "r \<in> set (survivors clean dublicate_vectors f)" by auto
    from f(2) obtain lr where lr: "lr \<in> set (file_rows f)" "r = as_out_row (uid_of f) lr"
      by (auto simp: survivors_def)
    have "origin r = (uid_of f, fst lr)" unfolding lr(2) by (simp add: as_out_row_def)
    then show "\<exists>f \<in> set (processed_files directory skip). \<exists>lr \<in> set (file_rows f).
                   r = as_out_row (uid_of f) lr \<and> origin r = (uid_of f, fst lr)"
      using f(1) lr by blast
  qed
  show ?thesis using st(1) d o by (intro exI[of _ st]) simp
qed

lemma ex_run_origins:
  "map_option (map_sum fst (\<lambda>st. map origin (written_rows (written st))))
     (split_data id ex_directory 0 [(''a'', 3)] [] [] ex_dublicate_vectors 2)
   = Some (Inr [(''_mp_epoch_0.pkl'', 2), (''_mp_epoch_1.pkl'', 1), (''_mp_epoch_1.pkl'', 2)])"
  by code_simp

theorem origins_are_unique_witness:
  "\<exists>st. split_data id ex_directory 0 [(''a'', 3)] [] [] ex_dublicate_vectors 2 = Some (Inr st)
      \<and> distinct (map origin (written_rows (written st)))
      \<and> map origin (written_rows (written st))
          = [(''_mp_epoch_0.pkl'', 2), (''_mp_epoch_1.pkl'', 1), (''_mp_epoch_1.pkl'', 2)]"
proof -
  have h1: "0 < (2::int)" by simp
  have h3: "distinct (map uid_of (processed_files ex_directory 0))"
    unfolding ex_processed by (simp add: uid_of_def unique_identifier_def ex_shard_def)
  have h4: "\<forall>f \<in> set (processed_files ex_directory 0). distinct (map fst (file_rows f))"
    unfolding ex_processed by (simp add: file_rows_def ex_shard_def)
  from origins_are_unique[OF h1 ex_disk h3 h4, of id "[(''a'', 3)]" "[]" "[]" ex_dublicate_vectors]
  obtain st where all: "split_data id ex_directory 0 [(''a'', 3)] [] [] ex_dublicate_vectors 2
      = Some (Inr st) \<and> distinct (map origin (written_rows (written st)))
        \<and> (\<forall>r \<in> set (written_rows (written st)).
                 \<exists>f \<in> set (processed_files ex_directory 0). \<exists>lr \<in> set (file_rows f).
                   r = as_out_row (uid_of f) lr \<and> origin r = (uid_of f, fst lr))" ..
  have st: "split_data id ex_directory 0 [(''a'', 3)] [] [] ex_dublicate_vectors 2
      = Some (Inr st)" "distinct (map origin (written_rows (written st)))"
    using all by (rule conjunct1, rule conjunct1[OF conjunct2])
  have "map origin (written_rows (written st))
      = [(''_mp_epoch_0.pkl'', 2), (''_mp_epoch_1.pkl'', 1), (''_mp_epoch_1.pkl'', 2)]"
    using ex_run_origins[unfolded st(1)] by (simp only: option.map map_sum.simps option.inject sum.inject)
  then show ?thesis using st by (intro exI[of _ st] conjI)
qed

text \<open>
  Claim C7 as stated fails where the origin is no identifier: the two rows of a source
  shard that has the index label 0 twice get the same origin, and so do the rows with
  label 0 of the source shards \<open>corpus_as_df_mp_epoch_df1.pkl\<close> and
  \<open>corpus_as_df_mp_epoch_df2.pkl\<close>, whose names have the same text between the first two
  \<open>df\<close>.
\<close>

theorem shared_origin_counterexample:
  "map_option (map_sum fst (\<lambda>st. map origin (written_rows (written st))))
     (split_data id ex_repeated_label 0 [(''a'', 2)] [] [] [] 100)
   = Some (Inr [(''_mp_epoch_0.pkl'', 0), (''_mp_epoch_0.pkl'', 0)])
   \<and> map_option (map_sum fst (\<lambda>st. map origin (written_rows (written st))))
     (split_data id ex_shared_identifier 0 [(''a'', 2)] [] [] [] 100)
   = Some (Inr [(''_mp_epoch_'', 0), (''_mp_epoch_'', 0)])"
  by code_simp

lemma counter_dec_get:
  "counter_get (counter_dec c w) v = counter_get c v - (if v = w then 1 else 0)"
  by (simp add: counter_get_def counter_dec_def AList.update_conv')

text \<open>
  Claim C2, as the code has it. A row that passes both filters goes to the test rows
  when the test quota of its word is positive, else to the validation rows when the
  validation quota is positive, else to the training rows; the quota of the subset it
  goes to is lowered by 1 and nothing else changes. The training quota is lowered
  whatever its value, so it can become negative, and the row is kept.
\<close>

theorem surviving_row_routing:
  assumes "clean (lexical_word row) = clean (mfa_word row)"
    and "(i, clean (lexical_word row)) \<notin> set dups"
  shows "(let st' = process_row clean dups unique_id (i, row) st;
              w = lexical_word row;
              r = \<lparr>out_word = w, out_features = features row, origin = (unique_id, i)\<rparr>
          in if 0 < counter_get (test_words st) w
             then test_rows st' = test_rows st @ [r]
                  \<and> validation_rows st' = validation_rows st
                  \<and> training_rows st' = training_rows st
                  \<and> (\<forall>v. counter_get (test_words st') v
                            = counter_get (test_words st) v - (if v = w then 1 else 0))
                  \<and> validation_words st' = validation_words st
                  \<and> training_words st' = training_words st
             else if 0 < counter_get (validation_words st) w
             then validation_rows st' = validation_rows st @ [r]
                  \<and> test_rows st' = test_rows st
                  \<and> training_rows st' = training_rows st
                  \<and> (\<forall>v. counter_get (validation_words st') v
                            = counter_get (validation_words st) v - (if v = w then 1 else 0))
                  \<and> test_words st' = test_words st
                  \<and> training_words st' = training_words st
             else training_rows st' = training_rows st @ [r]
                  \<and> test_rows st' = test_rows st
                  \<and> validation_rows st' = validation_rows st
                  \<and> (\<forall>v. counter_get (training_words st') v
                            = counter_get (training_words st) v - (if v = w then 1 else 0))
                  \<and> test_words st' = test_words st
                  \<and> validation_words st' = validation_words st)"
  using assms
  by (simp add: process_row_def route_row_def Let_def counter_dec_get)

theorem surviving_row_routing_witness:
  "training_rows (process_row id [] ''u'' (0, ex_row ''a'') (initial_state 0 [] [] []))
     = [\<lparr>out_word = ''a'', out_features = (), origin = (''u'', 0)\<rparr>]
   \<and> counter_get (training_words
        (process_row id [] ''u'' (0, ex_row ''a'') (initial_state 0 [] [] []))) ''a'' = - 1"
proof -
  have h1: "id (lexical_word (ex_row ''a'')) = id (mfa_word (ex_row ''a''))"
    by (simp add: ex_row_def)
  have h2: "(0, id (lexical_word (ex_row ''a''))) \<notin> set []" by simp
  have g: "counter_get [] ''a'' = 0" by (simp add: counter_get_def)
  show ?thesis
    using surviving_row_routing[OF h1 h2, of "''u''" "initial_state 0 [] [] []"]
    by (simp add: Let_def initial_state_def g ex_row_def id_def)
qed

text \<open>
  Claim C2 as stated fails on a source shard with one row whose word has no quota at
  all: the run does not fail, it ends with a training quota of \<open>-1\<close> for the word and
  the row written to the training shard 0.
\<close>

theorem negative_training_quota_counterexample:
  "map_option (map_sum fst (\<lambda>st. (training_words st, written st)))
     (split_data id ex_unplanned_word 0 [] [] [] [] 100)
   = Some (Inr ([(''a'', - 1)],
        [(''training_data'', 0,
          [\<lparr>out_word = ''a'', out_features = (), origin = (''_mp_epoch_0.pkl'', 0)\<rparr>])]))"
  by code_simp

text \<open>
  Claim C3 against the code. The counter \<open>i\<close> that decides on a checkpoint is the loop
  variable of the row loop as well, so at the test \<open>i % 10 == 0\<close> it holds the index label
  of the last row of the source shard. Eleven source shards of two rows (labels 0 and 1)
  are processed without any checkpoint; two source shards of one row (label 0) give a
  checkpoint each, both under the number 0.
\<close>

theorem checkpoints_follow_last_row_label:
  "map_option (map_sum fst checkpoints)
     (split_data id ex_eleven_shards 0 [(''a'', 22)] [] [] [] 100) = Some (Inr [])
   \<and> map_option (map_sum fst (\<lambda>st. map (\<lambda>c. fst (snd c)) (checkpoints st)))
     (split_data id ex_single_row_shards 0 [(''a'', 2)] [] [] [] 100) = Some (Inr [0, 0])"
  by code_simp

end
